theory Spec2Isabelle
  imports
    Main
    "HOL-Library.Sublist"
    "HOL-Library.AList"
    "HOL-Library.Multiset"
    "HOL-Library.Char_ord"
    "HOL-Library.List_Lexorder"
begin

section \<open>Path names (Go's \<open>path/filepath\<close> on a slash-separated system)\<close>

text \<open>
  Go paths are strings. \<open>split_sep\<close> is \<open>strings.Split(s, "/")\<close>, \<open>join_sep\<close> is
  \<open>strings.Join(xs, "/")\<close>. \<open>Clean\<close> follows the four rules documented for
  \<open>filepath.Clean\<close>: runs of separators collapse, \<open>.\<close> elements disappear, an inner
  \<open>..\<close> removes the element before it, and \<open>..\<close> at the start of a rooted path
  disappears. The element stack of \<open>clean_step\<close> is kept with its top first.
\<close>

fun split_sep :: "string \<Rightarrow> string list" where
  "split_sep [] = [[]]"
| "split_sep (c # cs) =
     (if c = CHR ''/'' then [] # split_sep cs
      else (case split_sep cs of [] \<Rightarrow> [[c]] | s # ss \<Rightarrow> (c # s) # ss))"

fun join_sep :: "string list \<Rightarrow> string" where
  "join_sep [] = []"
| "join_sep [x] = x"
| "join_sep (x # y # ys) = x @ ''/'' @ join_sep (y # ys)"

definition rooted :: "string \<Rightarrow> bool" where
  "rooted s = (case s of [] \<Rightarrow> False | c # _ \<Rightarrow> c = CHR ''/'')"

definition clean_step :: "bool \<Rightarrow> string list \<Rightarrow> string \<Rightarrow> string list" where
  "clean_step r stack seg =
     (if seg = [] \<or> seg = ''.'' then stack
      else if seg = ''..'' then
        (case stack of
           [] \<Rightarrow> if r then [] else [''..'']
         | t # ts \<Rightarrow> if t = ''..'' then (if r then stack else ''..'' # stack) else ts)
      else seg # stack)"

definition clean_segs :: "bool \<Rightarrow> string list \<Rightarrow> string list" where
  "clean_segs r segs = rev (foldl (clean_step r) [] segs)"

text \<open>A resolved path name: whether it is rooted, and its cleaned elements.\<close>

type_synonym path_key = "bool \<times> string list"

definition path_key :: "string \<Rightarrow> path_key" where
  "path_key s = (rooted s, clean_segs (rooted s) (split_sep s))"

definition render :: "path_key \<Rightarrow> string" where
  "render k =
     (case k of (r, segs) \<Rightarrow>
        if segs = [] then (if r then ''/'' else ''.'')
        else (if r then ''/'' else []) @ join_sep segs)"

definition Clean :: "string \<Rightarrow> string" where
  "Clean s = render (path_key s)"

text \<open>\<open>filepath.Join\<close>: empty elements are ignored, the rest is joined and cleaned;
  when every element is empty the result is the empty string.\<close>

definition Join :: "string list \<Rightarrow> string" where
  "Join elems =
     (let es = filter (\<lambda>e. e \<noteq> []) elems
      in if es = [] then [] else Clean (join_sep es))"

definition HasSuffix :: "string \<Rightarrow> string \<Rightarrow> bool" where
  "HasSuffix s suf = suffix suf s"

fun Contains :: "string \<Rightarrow> string \<Rightarrow> bool" where
  "Contains [] sub = (sub = [])"
| "Contains (c # cs) sub = (prefix sub (c # cs) \<or> Contains cs sub)"

section \<open>Errors\<close>

datatype errno = ENOENT | ENOTDIR | EISDIR | ENOTEMPTY | EBUSY

fun errno_msg :: "errno \<Rightarrow> string" where
  "errno_msg ENOENT = ''no such file or directory''"
| "errno_msg ENOTDIR = ''not a directory''"
| "errno_msg EISDIR = ''is a directory''"
| "errno_msg ENOTEMPTY = ''directory not empty''"
| "errno_msg EBUSY = ''device or resource busy''"

record GroupResource =
  Group :: string
  Resource :: string

text \<open>
  The error values the store can return: its two sentinels, the two API status errors
  it builds, errors made with \<open>fmt.Errorf\<close>, \<open>*fs.PathError\<close> from the operating
  system, and errors of the injected collaborators (codec, validators, accessor, update
  function), which are opaque but for their message.
\<close>

datatype error =
    ErrFileNotExists
  | ErrNamespaceNotExists
  | NotFound GroupResource string
  | BadRequest string
  | Errorf string
  | PathError string string errno
  | External string

definition GroupResource_String :: "GroupResource \<Rightarrow> string" where
  "GroupResource_String gr =
     (if Group gr = [] then Resource gr else Resource gr @ ''.'' @ Group gr)"

text \<open>\<open>err.Error()\<close>. The name in a \<open>NotFound\<close> message is quoted without escapes.\<close>

fun Error :: "error \<Rightarrow> string" where
  "Error ErrFileNotExists = ''file doesn'' @ [CHR 0x27] @ ''t exist''"
| "Error ErrNamespaceNotExists = ''namespace does not exist''"
| "Error (NotFound gr name) =
     GroupResource_String gr @ '' '' @ [CHR 0x22] @ name @ [CHR 0x22] @ '' not found''"
| "Error (BadRequest msg) = msg"
| "Error (Errorf msg) = msg"
| "Error (PathError opn p e) = opn @ '' '' @ p @ '': '' @ errno_msg e"
| "Error (External msg) = msg"

section \<open>The file system\<close>

text \<open>
  The file tree, as an association list from resolved path names to nodes. A regular
  file holds its bytes. The two tops (\<open>/\<close> and the working directory) are always
  directories. A name is reached through its ancestors, which must all be directories,
  so an entry of the list with a missing ancestor is not part of the tree. Permissions
  and symbolic links are left out: the store writes its own files and directories with
  owner access and creates no links.
\<close>

datatype node = File string | Dir

type_synonym fs = "(path_key \<times> node) list"

definition os_key :: "string \<Rightarrow> path_key option" where
  "os_key p = (if p = [] then None else Some (path_key p))"

definition ancestors :: "path_key \<Rightarrow> path_key list" where
  "ancestors k = (case k of (r, segs) \<Rightarrow> map (\<lambda>i. (r, take i segs)) [0..<length segs])"

definition parent :: "path_key \<Rightarrow> path_key" where
  "parent k = (case k of (r, segs) \<Rightarrow> (r, butlast segs))"

definition is_below :: "path_key \<Rightarrow> path_key \<Rightarrow> bool" where
  "is_below root k = (fst k = fst root \<and> strict_prefix (snd root) (snd k))"

definition node_at :: "fs \<Rightarrow> path_key \<Rightarrow> node option" where
  "node_at t k = (if snd k = [] then Some Dir else map_of t k)"

fun resolve_dirs :: "fs \<Rightarrow> path_key list \<Rightarrow> errno option" where
  "resolve_dirs t [] = None"
| "resolve_dirs t (a # as) =
     (case node_at t a of
        None \<Rightarrow> Some ENOENT
      | Some (File _) \<Rightarrow> Some ENOTDIR
      | Some Dir \<Rightarrow> resolve_dirs t as)"

definition lookup :: "fs \<Rightarrow> path_key \<Rightarrow> errno + node" where
  "lookup t k =
     (case resolve_dirs t (ancestors k) of
        Some e \<Rightarrow> Inl e
      | None \<Rightarrow> (case node_at t k of None \<Rightarrow> Inl ENOENT | Some n \<Rightarrow> Inr n))"

definition Stat :: "fs \<Rightarrow> string \<Rightarrow> error + node" where
  "Stat t p =
     (case os_key p of
        None \<Rightarrow> Inl (PathError ''stat'' p ENOENT)
      | Some k \<Rightarrow>
          (case lookup t k of
             Inl e \<Rightarrow> Inl (PathError ''stat'' p e)
           | Inr n \<Rightarrow> Inr n))"

definition ReadFile :: "fs \<Rightarrow> string \<Rightarrow> error + string" where
  "ReadFile t p =
     (case os_key p of
        None \<Rightarrow> Inl (PathError ''open'' p ENOENT)
      | Some k \<Rightarrow>
          (case lookup t k of
             Inl e \<Rightarrow> Inl (PathError ''open'' p e)
           | Inr Dir \<Rightarrow> Inl (PathError ''read'' p EISDIR)
           | Inr (File b) \<Rightarrow> Inr b))"

text \<open>\<open>os.WriteFile\<close> creates the file or replaces its bytes.\<close>

definition WriteFile :: "fs \<Rightarrow> string \<Rightarrow> string \<Rightarrow> error + fs" where
  "WriteFile t p b =
     (case os_key p of
        None \<Rightarrow> Inl (PathError ''open'' p ENOENT)
      | Some k \<Rightarrow>
          (case resolve_dirs t (ancestors k) of
             Some e \<Rightarrow> Inl (PathError ''open'' p e)
           | None \<Rightarrow>
               (case node_at t k of
                  Some Dir \<Rightarrow> Inl (PathError ''open'' p EISDIR)
                | _ \<Rightarrow> Inr (AList.update k (File b) t))))"

definition has_children :: "fs \<Rightarrow> path_key \<Rightarrow> bool" where
  "has_children t k = list_ex (\<lambda>e. fst e \<noteq> k \<and> parent (fst e) = k) t"

text \<open>\<open>os.Remove\<close> removes a file or an empty directory, never a top.\<close>

definition Remove :: "fs \<Rightarrow> string \<Rightarrow> error + fs" where
  "Remove t p =
     (case os_key p of
        None \<Rightarrow> Inl (PathError ''remove'' p ENOENT)
      | Some k \<Rightarrow>
          (case lookup t k of
             Inl e \<Rightarrow> Inl (PathError ''remove'' p e)
           | Inr (File _) \<Rightarrow> Inr (AList.delete k t)
           | Inr Dir \<Rightarrow>
               if snd k = [] then Inl (PathError ''remove'' p EBUSY)
               else if has_children t k then Inl (PathError ''remove'' p ENOTEMPTY)
               else Inr (AList.delete k t)))"

text \<open>\<open>os.MkdirAll\<close>: every missing directory on the way is created, from the top;
  a regular file on the way is an error. A new directory is empty: entries of the list
  below its name, which were out of reach, are dropped.\<close>

definition mkdir1 :: "fs \<Rightarrow> path_key \<Rightarrow> fs" where
  "mkdir1 t k = filter (\<lambda>e. \<not> is_below k (fst e)) t @ [(k, Dir)]"

fun mkdirs :: "fs \<Rightarrow> path_key list \<Rightarrow> error + fs" where
  "mkdirs t [] = Inr t"
| "mkdirs t (k # ks) =
     (case node_at t k of
        Some Dir \<Rightarrow> mkdirs t ks
      | Some (File _) \<Rightarrow> Inl (PathError ''mkdir'' (render k) ENOTDIR)
      | None \<Rightarrow> mkdirs (mkdir1 t k) ks)"

definition MkdirAll :: "fs \<Rightarrow> string \<Rightarrow> error + fs" where
  "MkdirAll t p =
     (case os_key p of
        None \<Rightarrow> Inl (PathError ''mkdir'' p ENOENT)
      | Some k \<Rightarrow> mkdirs t (ancestors k @ [k]))"

text \<open>
  \<open>filepath.Walk\<close> visits the root and everything below it in lexical order, a
  directory before its entries: the order of the element lists. The callback gets the
  path name and either the error of the root's \<open>Lstat\<close> or the file's \<open>FileInfo\<close>;
  it runs on the file system as the previous visits left it, and the first error it
  returns ends the walk. The names below the root are those present when the walk
  starts; the store's callbacks remove at most the file being visited.
\<close>

record FileInfo =
  Name :: string
  IsDir :: bool

definition base_name :: "path_key \<Rightarrow> string" where
  "base_name k =
     (case k of (r, segs) \<Rightarrow> if segs = [] then (if r then ''/'' else ''.'') else last segs)"

definition below_entries :: "fs \<Rightarrow> path_key \<Rightarrow> (path_key \<times> node) list" where
  "below_entries t k =
     sort_key (\<lambda>e. snd (fst e))
       (filter (\<lambda>e. is_below k (fst e) \<and> resolve_dirs t (ancestors (fst e)) = None)
          (AList.clearjunk t))"

definition walk_entries :: "fs \<Rightarrow> string \<Rightarrow> path_key \<Rightarrow> node \<Rightarrow> (string \<times> FileInfo) list" where
  "walk_entries t root k n =
     (root, \<lparr>Name = base_name k, IsDir = (n = Dir)\<rparr>) #
     (if n = Dir
      then map (\<lambda>e. (render (fst e), \<lparr>Name = base_name (fst e), IsDir = (snd e = Dir)\<rparr>))
             (below_entries t k)
      else [])"

fun walk_list ::
  "(string \<Rightarrow> error + FileInfo \<Rightarrow> 's \<Rightarrow> error option \<times> 's) \<Rightarrow>
   (string \<times> FileInfo) list \<Rightarrow> 's \<Rightarrow> error option \<times> 's" where
  "walk_list fn [] s = (None, s)"
| "walk_list fn (e # es) s =
     (case fn (fst e) (Inr (snd e)) s of
        (Some err, s') \<Rightarrow> (Some err, s')
      | (None, s') \<Rightarrow> walk_list fn es s')"

definition Walk ::
  "string \<Rightarrow> (string \<Rightarrow> error + FileInfo \<Rightarrow> fs \<times> 'a \<Rightarrow> error option \<times> fs \<times> 'a) \<Rightarrow>
   fs \<times> 'a \<Rightarrow> error option \<times> fs \<times> 'a" where
  "Walk root fn s =
     (case Stat (fst s) root of
        Inl err \<Rightarrow> fn root (Inl err) s
      | Inr n \<Rightarrow> walk_list fn (walk_entries (fst s) root (path_key root) n) s)"

section \<open>The store\<close>

datatype EventType = Added | Modified | Deleted

record 'o Event =
  Type :: EventType
  Object :: 'o

text \<open>The injected codec: \<open>Encode\<close> gives the bytes of an object, \<open>Decode\<close> parses
  bytes into a new object; either may fail.\<close>

record 'o Codec =
  Encode :: "'o \<Rightarrow> error + string"
  Decode :: "string \<Rightarrow> error + 'o"

text \<open>What \<open>newListFunc\<close> makes: a list object with its \<open>Items\<close>, or an object
  whose items \<open>meta.GetItemsPtr\<close> cannot find.\<close>

datatype 'o ListObject = ItemsList "'o list" | NoItems error

text \<open>A subscription: its registry key and its channel, an index into the channels
  of the state. (Its pointer back to the store is the state it is used with.)\<close>

record jsonWatch =
  id_jw :: nat
  ch :: nat

text \<open>
  The fields of \<open>filepathREST\<close>. \<open>watchers\<close> is the map from subscription keys to
  subscriptions, kept as an association list with one entry for each key.
  \<open>accessor\<close> stands for \<open>meta.Accessor(obj)\<close> followed by \<open>GetName()\<close> on the
  store's object type. \<open>newFunc\<close> only provides the object \<open>Decode\<close> fills.
\<close>

record 'o filepathREST =
  groupResource :: GroupResource
  codec :: "'o Codec"
  objRootPath :: string
  isNamespaced :: bool
  watchers :: "(nat \<times> jsonWatch) list"
  newListFunc :: "'o ListObject"
  accessor :: "'o \<Rightarrow> error + string"

text \<open>The store together with what it runs on: the file system and the channels
  made so far, each a queue of at most ten events.\<close>

record 'o state =
  store :: "'o filepathREST"
  files :: fs
  chans :: "'o Event list list"

text \<open>A request context carries a namespace or none.\<close>

type_synonym ctx = "string option"

definition NamespaceFrom :: "ctx \<Rightarrow> string \<times> bool" where
  "NamespaceFrom c = (case c of None \<Rightarrow> ([], False) | Some ns \<Rightarrow> (ns, True))"

type_synonym 'o ValidateObjectFunc = "(ctx \<Rightarrow> 'o \<Rightarrow> error option) option"
type_synonym 'o ValidateObjectUpdateFunc = "(ctx \<Rightarrow> 'o \<Rightarrow> 'o \<Rightarrow> error option) option"
type_synonym 'o UpdatedObjectInfo = "ctx \<Rightarrow> 'o option \<Rightarrow> error + 'o"

definition validate :: "'o ValidateObjectFunc \<Rightarrow> ctx \<Rightarrow> 'o \<Rightarrow> error option" where
  "validate v c obj = (case v of None \<Rightarrow> None | Some f \<Rightarrow> f c obj)"

definition validateUpdate ::
  "'o ValidateObjectUpdateFunc \<Rightarrow> ctx \<Rightarrow> 'o \<Rightarrow> 'o \<Rightarrow> error option" where
  "validateUpdate v c obj old = (case v of None \<Rightarrow> None | Some f \<Rightarrow> f c obj old)"

subsection \<open>Files of the store\<close>

definition objectFileName :: "'o filepathREST \<Rightarrow> ctx \<Rightarrow> string \<Rightarrow> string" where
  "objectFileName f c name =
     (if isNamespaced f
      then Join [objRootPath f, fst (NamespaceFrom c), name @ ''.json'']
      else Join [objRootPath f, name @ ''.json''])"

definition objectDirName :: "'o filepathREST \<Rightarrow> ctx \<Rightarrow> string" where
  "objectDirName f c =
     (if isNamespaced f
      then Join [objRootPath f, fst (NamespaceFrom c)]
      else objRootPath f)"

definition write_obj :: "'o Codec \<Rightarrow> fs \<Rightarrow> string \<Rightarrow> 'o \<Rightarrow> error + fs" where
  "write_obj enc t p obj =
     (case Encode enc obj of
        Inl err \<Rightarrow> Inl err
      | Inr buf \<Rightarrow> WriteFile t p buf)"

definition read_obj :: "'o Codec \<Rightarrow> fs \<Rightarrow> string \<Rightarrow> error + 'o" where
  "read_obj dec t p =
     (case ReadFile t (Clean p) of
        Inl err \<Rightarrow> Inl err
      | Inr content \<Rightarrow> Decode dec content)"

definition exists :: "fs \<Rightarrow> string \<Rightarrow> bool" where
  "exists t p = (case Stat t p of Inl _ \<Rightarrow> False | Inr _ \<Rightarrow> True)"

definition ensureDir :: "fs \<Rightarrow> string \<Rightarrow> error + fs" where
  "ensureDir t d = (if \<not> exists t d then MkdirAll t d else Inr t)"

definition visitDir ::
  "string \<Rightarrow> 'o Codec \<Rightarrow> (string \<Rightarrow> 'o \<Rightarrow> fs \<times> 'a \<Rightarrow> fs \<times> 'a) \<Rightarrow>
   fs \<times> 'a \<Rightarrow> error option \<times> fs \<times> 'a" where
  "visitDir dirname dec visitFunc s =
     Walk dirname
       (\<lambda>p r s'.
          case r of
            Inl err \<Rightarrow> (Some err, s')
          | Inr info \<Rightarrow>
              if IsDir info then (None, s')
              else if \<not> HasSuffix (Name info) ''.json'' then (None, s')
              else (case read_obj dec (fst s') p of
                      Inl err \<Rightarrow> (Some err, s')
                    | Inr obj \<Rightarrow> (None, visitFunc p obj s')))
       s"

definition appendItem :: "'o list \<Rightarrow> 'o \<Rightarrow> 'o list" where
  "appendItem v obj = v @ [obj]"

definition getListPrt :: "'o ListObject \<Rightarrow> error + 'o list" where
  "getListPrt l = (case l of NoItems err \<Rightarrow> Inl err | ItemsList v \<Rightarrow> Inr v)"

subsection \<open>Watchers\<close>

text \<open>A send on a channel with ten events waiting blocks; with no receiver in the
  model, a blocked call never returns, which is the result \<open>None\<close>. Go ranges over
  the registry in no fixed order; \<open>send_each\<close> takes the order of the list.\<close>

definition send :: "'o Event list list \<Rightarrow> nat \<Rightarrow> 'o Event \<Rightarrow> 'o Event list list option" where
  "send cs c ev =
     (if c < length cs \<and> length (cs ! c) < 10 then Some (cs[c := cs ! c @ [ev]]) else None)"

fun send_each ::
  "'o Event \<Rightarrow> (nat \<times> jsonWatch) list \<Rightarrow> 'o Event list list \<Rightarrow> 'o Event list list option" where
  "send_each ev [] cs = Some cs"
| "send_each ev (w # ws) cs =
     (case send cs (ch (snd w)) ev of
        None \<Rightarrow> None
      | Some cs' \<Rightarrow> send_each ev ws cs')"

definition notifyWatchers :: "'o state \<Rightarrow> 'o Event \<Rightarrow> 'o state option" where
  "notifyWatchers st ev =
     (case send_each ev (watchers (store st)) (chans st) of
        None \<Rightarrow> None
      | Some cs \<Rightarrow> Some (st\<lparr>chans := cs\<rparr>))"

subsection \<open>Operations\<close>

definition Get :: "'o state \<Rightarrow> ctx \<Rightarrow> string \<Rightarrow> error + 'o" where
  "Get st c name =
     (case read_obj (codec (store st)) (files st) (objectFileName (store st) c name) of
        Inl err \<Rightarrow>
          if \<not> Contains (Error err) ''no such file or directory''
          then Inl (BadRequest (Error err))
          else Inl (NotFound (groupResource (store st)) name)
      | Inr obj \<Rightarrow> Inr obj)"

definition List :: "'o state \<Rightarrow> ctx \<Rightarrow> error + 'o list" where
  "List st c =
     (case getListPrt (newListFunc (store st)) of
        Inl err \<Rightarrow> Inl err
      | Inr v \<Rightarrow>
          (let dirname = objectDirName (store st) c
           in case visitDir dirname (codec (store st))
                     (\<lambda>p obj s. (fst s, appendItem (snd s) obj)) (files st, v) of
                (Some err, s) \<Rightarrow> Inl (Errorf (''failed walking filepath '' @ dirname))
              | (None, s) \<Rightarrow> Inr (snd s)))"

text \<open>The namespace step shared by \<open>Create\<close> and \<open>Update\<close>: a namespaced store needs
  a namespace in the context and makes sure its directory exists.\<close>

definition ensureNamespace :: "'o state \<Rightarrow> ctx \<Rightarrow> error + fs" where
  "ensureNamespace st c =
     (if isNamespaced (store st) then
        (case NamespaceFrom c of
           (ns, ok) \<Rightarrow>
             if \<not> ok then Inl ErrNamespaceNotExists
             else ensureDir (files st) (Join [objRootPath (store st), ns]))
      else Inr (files st))"

definition Create ::
  "'o state \<Rightarrow> ctx \<Rightarrow> 'o \<Rightarrow> 'o ValidateObjectFunc \<Rightarrow> ((error + 'o) \<times> 'o state) option" where
  "Create st c obj createValidation =
     (case validate createValidation c obj of
        Some err \<Rightarrow> Some (Inl err, st)
      | None \<Rightarrow>
          (case ensureNamespace st c of
             Inl err \<Rightarrow> Some (Inl err, st)
           | Inr t1 \<Rightarrow>
               (case accessor (store st) obj of
                  Inl err \<Rightarrow> Some (Inl err, st\<lparr>files := t1\<rparr>)
                | Inr name \<Rightarrow>
                    (let filename = objectFileName (store st) c name
                     in if exists t1 filename then Some (Inl ErrFileNotExists, st\<lparr>files := t1\<rparr>)
                        else (case write_obj (codec (store st)) t1 filename obj of
                                Inl err \<Rightarrow> Some (Inl err, st\<lparr>files := t1\<rparr>)
                              | Inr t2 \<Rightarrow>
                                  (case notifyWatchers (st\<lparr>files := t2\<rparr>)
                                          \<lparr>Type = Added, Object = obj\<rparr> of
                                     None \<Rightarrow> None
                                   | Some st' \<Rightarrow> Some (Inr obj, st')))))))"

definition Update ::
  "'o state \<Rightarrow> ctx \<Rightarrow> string \<Rightarrow> 'o UpdatedObjectInfo \<Rightarrow> 'o ValidateObjectFunc \<Rightarrow>
   'o ValidateObjectUpdateFunc \<Rightarrow> bool \<Rightarrow> ((error + 'o \<times> bool) \<times> 'o state) option" where
  "Update st c name objInfo createValidation updateValidation forceAllowCreate =
     (case (case Get st c name of
              Inl err \<Rightarrow> if \<not> forceAllowCreate then Inl err else Inr None
            | Inr old \<Rightarrow> Inr (Some old)) of
        Inl err \<Rightarrow> Some (Inl err, st)
      | Inr oldObj \<Rightarrow>
          (case ensureNamespace st c of
             Inl err \<Rightarrow> Some (Inl err, st)
           | Inr t1 \<Rightarrow>
               (case objInfo c oldObj of
                  Inl err \<Rightarrow> Some (Inl err, st\<lparr>files := t1\<rparr>)
                | Inr updatedObj \<Rightarrow>
                    (let filename = objectFileName (store st) c name
                     in case oldObj of
                          None \<Rightarrow>
                            (case validate createValidation c updatedObj of
                               Some err \<Rightarrow> Some (Inl err, st\<lparr>files := t1\<rparr>)
                             | None \<Rightarrow>
                                 (case write_obj (codec (store st)) t1 filename updatedObj of
                                    Inl err \<Rightarrow> Some (Inl err, st\<lparr>files := t1\<rparr>)
                                  | Inr t2 \<Rightarrow>
                                      (case notifyWatchers (st\<lparr>files := t2\<rparr>)
                                              \<lparr>Type = Added, Object = updatedObj\<rparr> of
                                         None \<Rightarrow> None
                                       | Some st' \<Rightarrow> Some (Inr (updatedObj, True), st'))))
                        | Some old \<Rightarrow>
                            (case validateUpdate updateValidation c updatedObj old of
                               Some err \<Rightarrow> Some (Inl err, st\<lparr>files := t1\<rparr>)
                             | None \<Rightarrow>
                                 (case write_obj (codec (store st)) t1 filename updatedObj of
                                    Inl err \<Rightarrow> Some (Inl err, st\<lparr>files := t1\<rparr>)
                                  | Inr t2 \<Rightarrow>
                                      (case notifyWatchers (st\<lparr>files := t2\<rparr>)
                                              \<lparr>Type = Modified, Object = updatedObj\<rparr> of
                                         None \<Rightarrow> None
                                       | Some st' \<Rightarrow> Some (Inr (updatedObj, False), st'))))))))"

definition Delete ::
  "'o state \<Rightarrow> ctx \<Rightarrow> string \<Rightarrow> 'o ValidateObjectFunc \<Rightarrow>
   ((error + 'o \<times> bool) \<times> 'o state) option" where
  "Delete st c name deleteValidation =
     (let filename = objectFileName (store st) c name
      in if \<not> exists (files st) filename then Some (Inl ErrFileNotExists, st)
         else (case Get st c name of
                 Inl err \<Rightarrow> Some (Inl err, st)
               | Inr oldObj \<Rightarrow>
                   (case validate deleteValidation c oldObj of
                      Some err \<Rightarrow> Some (Inl err, st)
                    | None \<Rightarrow>
                        (case Remove (files st) filename of
                           Inl err \<Rightarrow> Some (Inl err, st)
                         | Inr t' \<Rightarrow>
                             (case notifyWatchers (st\<lparr>files := t'\<rparr>)
                                     \<lparr>Type = Deleted, Object = oldObj\<rparr> of
                                None \<Rightarrow> None
                              | Some st' \<Rightarrow> Some (Inr (oldObj, True), st'))))))"

text \<open>\<open>DeleteCollection\<close> removes each file it visits, ignoring the result of the
  removal, and does not call its validation. Files removed before a failed visit stay
  removed.\<close>

definition DeleteCollection ::
  "'o state \<Rightarrow> ctx \<Rightarrow> 'o ValidateObjectFunc \<Rightarrow> (error + 'o list) \<times> 'o state" where
  "DeleteCollection st c deleteValidation =
     (case getListPrt (newListFunc (store st)) of
        Inl err \<Rightarrow> (Inl err, st)
      | Inr v \<Rightarrow>
          (let dirname = objectDirName (store st) c
           in case visitDir dirname (codec (store st))
                     (\<lambda>p obj s.
                        ((case Remove (fst s) p of Inl _ \<Rightarrow> fst s | Inr t' \<Rightarrow> t'),
                         appendItem (snd s) obj))
                     (files st, v) of
                (Some err, s) \<Rightarrow>
                  (Inl (Errorf (''failed walking filepath '' @ dirname)), st\<lparr>files := fst s\<rparr>)
              | (None, s) \<Rightarrow> (Inr (snd s), st\<lparr>files := fst s\<rparr>)))"

text \<open>\<open>Watch\<close>: the subscription takes the current size of the registry as its key
  and a new channel; the objects listed are sent to the channel as \<open>Added\<close> events
  before the subscription is entered in the registry.\<close>

fun send_items :: "'o list \<Rightarrow> nat \<Rightarrow> 'o Event list list \<Rightarrow> 'o Event list list option" where
  "send_items [] c cs = Some cs"
| "send_items (obj # objs) c cs =
     (case send cs c \<lparr>Type = Added, Object = obj\<rparr> of
        None \<Rightarrow> None
      | Some cs' \<Rightarrow> send_items objs c cs')"

definition Watch :: "'o state \<Rightarrow> ctx \<Rightarrow> ((error + jsonWatch) \<times> 'o state) option" where
  "Watch st c =
     (let jw = \<lparr>id_jw = length (watchers (store st)), ch = length (chans st)\<rparr>;
          st1 = st\<lparr>chans := chans st @ [[]]\<rparr>
      in case List st1 c of
           Inl err \<Rightarrow> Some (Inl err, st1)
         | Inr items \<Rightarrow>
             (case send_items items (ch jw) (chans st1) of
                None \<Rightarrow> None
              | Some cs \<Rightarrow>
                  Some (Inr jw,
                        st1\<lparr>chans := cs,
                            store := (store st1)\<lparr>watchers :=
                              AList.update (id_jw jw) jw (watchers (store st1))\<rparr>\<rparr>)))"

definition Stop :: "'o state \<Rightarrow> jsonWatch \<Rightarrow> 'o state" where
  "Stop st w = st\<lparr>store := (store st)\<lparr>watchers := AList.delete (id_jw w) (watchers (store st))\<rparr>\<rparr>"

definition ResultChan :: "'o state \<Rightarrow> jsonWatch \<Rightarrow> 'o Event list" where
  "ResultChan st w = chans st ! ch w"

text \<open>\<open>NewFilepathREST\<close> on a file system: the root directory of the resource is
  made sure of; a failure there is a panic, given as the error.\<close>

definition NewFilepathREST ::
  "fs \<Rightarrow> GroupResource \<Rightarrow> 'o Codec \<Rightarrow> string \<Rightarrow> bool \<Rightarrow> ('o \<Rightarrow> error + string) \<Rightarrow>
   'o ListObject \<Rightarrow> error + 'o state" where
  "NewFilepathREST t gr cdc rootpath namespaced acc newList =
     (let objRoot = Join [rootpath, Group gr, Resource gr]
      in case ensureDir t objRoot of
           Inl err \<Rightarrow> Inl (Errorf (''unable to write data dir: '' @ Error err))
         | Inr t' \<Rightarrow>
             Inr \<lparr>store = \<lparr>groupResource = gr, codec = cdc, objRootPath = objRoot,
                           isNamespaced = namespaced, watchers = [], newListFunc = newList,
                           accessor = acc\<rparr>,
                  files = t', chans = []\<rparr>)"

section \<open>Notions used in the statements\<close>

text \<open>Path elements that \<open>Clean\<close> keeps as they are.\<close>

definition plain :: "string list \<Rightarrow> bool" where
  "plain ys = (\<forall>y\<in>set ys. y \<noteq> [] \<and> y \<noteq> ''.'' \<and> y \<noteq> ''..'')"

text \<open>Every registered subscription has a channel of its own, with space for one more
  event: a broadcast then returns.\<close>

definition room :: "'o state \<Rightarrow> bool" where
  "room st =
     (distinct (map (\<lambda>w. ch (snd w)) (watchers (store st))) \<and>
      list_all (\<lambda>w. ch (snd w) < length (chans st) \<and> length (chans st ! ch (snd w)) < 10)
        (watchers (store st)))"

text \<open>The entries of a directory listing that \<open>visitDir\<close> reads: regular files whose
  name ends in \<open>.json\<close>.\<close>

definition is_json_file :: "path_key \<times> node \<Rightarrow> bool" where
  "is_json_file e = (snd e \<noteq> Dir \<and> HasSuffix (base_name (fst e)) ''.json'')"

subsection \<open>A small store for the concrete runs\<close>

text \<open>Objects are pairs of a name and a payload, written as \<open>name:payload\<close>.\<close>

definition example_codec :: "(string \<times> string) Codec" where
  "example_codec =
     \<lparr>Encode = (\<lambda>obj. Inr (fst obj @ '':'' @ snd obj)),
      Decode = (\<lambda>s. if CHR '':'' \<in> set s
                     then Inr (takeWhile (\<lambda>c. c \<noteq> CHR '':'') s,
                               tl (dropWhile (\<lambda>c. c \<noteq> CHR '':'') s))
                     else Inl (External ''no separator''))\<rparr>"

definition example_gr :: GroupResource where
  "example_gr = \<lparr>Group = ''config'', Resource = ''things''\<rparr>"

definition example_accessor :: "string \<times> string \<Rightarrow> error + string" where
  "example_accessor obj = Inr (fst obj)"

definition example_rest :: "bool \<Rightarrow> (string \<times> string) filepathREST" where
  "example_rest namespaced =
     \<lparr>groupResource = example_gr, codec = example_codec,
      objRootPath = ''data/config/things'', isNamespaced = namespaced, watchers = [],
      newListFunc = ItemsList [], accessor = example_accessor\<rparr>"

definition example_state ::
  "bool \<Rightarrow> (nat \<times> jsonWatch) list \<Rightarrow> fs \<Rightarrow> (string \<times> string) Event list list \<Rightarrow>
   (string \<times> string) state" where
  "example_state namespaced ws t cs =
     \<lparr>store = (example_rest namespaced)\<lparr>watchers := ws\<rparr>, files = t, chans = cs\<rparr>"

definition example_dirs :: fs where
  "example_dirs =
     [((False, [''data'']), Dir),
      ((False, [''data'', ''config'']), Dir),
      ((False, [''data'', ''config'', ''things'']), Dir)]"

text \<open>The state \<open>NewFilepathREST\<close> gives on an empty file system.\<close>

definition example_new :: "bool \<Rightarrow> (string \<times> string) state" where
  "example_new namespaced = example_state namespaced [] example_dirs []"

definition example_foo :: "string \<times> string" where
  "example_foo = (''foo'', ''x'')"

definition example_bar :: "string \<times> string" where
  "example_bar = (''bar'', ''y'')"

definition foo_file :: "path_key \<times> node" where
  "foo_file = ((False, [''data'', ''config'', ''things'', ''foo.json'']), File ''foo:x'')"

definition bar_file :: "path_key \<times> node" where
  "bar_file = ((False, [''data'', ''config'', ''things'', ''bar.json'']), File ''bar:y'')"

definition ns1_dir :: "path_key \<times> node" where
  "ns1_dir = ((False, [''data'', ''config'', ''things'', ''ns1'']), Dir)"

definition ns1_foo_file :: "path_key \<times> node" where
  "ns1_foo_file =
     ((False, [''data'', ''config'', ''things'', ''ns1'', ''foo.json'']), File ''foo:x'')"

definition ns1_bar_file :: "path_key \<times> node" where
  "ns1_bar_file =
     ((False, [''data'', ''config'', ''things'', ''ns1'', ''bar.json'']), File ''bar:y'')"

definition ns2_dir :: "path_key \<times> node" where
  "ns2_dir = ((False, [''data'', ''config'', ''things'', ''ns2'']), Dir)"

definition ns2_baz_file :: "path_key \<times> node" where
  "ns2_baz_file =
     ((False, [''data'', ''config'', ''things'', ''ns2'', ''baz.json'']), File ''baz:z'')"

text \<open>A file system with \<open>foo\<close> and \<open>bar\<close> in namespace \<open>ns1\<close> and \<open>baz\<close> in \<open>ns2\<close>.\<close>

definition example_two_namespaces :: fs where
  "example_two_namespaces =
     example_dirs @ [ns1_dir, ns1_foo_file, ns1_bar_file, ns2_dir, ns2_baz_file]"

text \<open>A validator that rejects every object, and an update that always gives \<open>foo\<close>.\<close>

definition example_reject :: "(string \<times> string) ValidateObjectFunc" where
  "example_reject = Some (\<lambda>c obj. Some (External ''rejected''))"

definition example_info :: "(string \<times> string) UpdatedObjectInfo" where
  "example_info c old = Inr example_foo"

text \<open>The same store and surroundings, with the store cluster-scoped.\<close>

definition clusterScoped :: "'o state \<Rightarrow> 'o state" where
  "clusterScoped st = st\<lparr>store := (store st)\<lparr>isNamespaced := False\<rparr>\<rparr>"

section \<open>Properties of path names\<close>

text \<open>Cleaning a cleaned name changes nothing, so the name \<open>Join\<close> gives and its
  \<open>Clean\<close> are the same file.\<close>

lemma split_sep_not_Nil: "split_sep s \<noteq> []"
  by (induction s) (auto split: list.splits)

lemma split_sep_no_sep: "x \<in> set (split_sep s) \<Longrightarrow> CHR ''/'' \<notin> set x"
  by (induction s arbitrary: x) (auto split: list.splits if_splits)

lemma split_sep_plain: "CHR ''/'' \<notin> set x \<Longrightarrow> split_sep x = [x]"
  by (induction x) auto

lemma split_sep_append: "CHR ''/'' \<notin> set x \<Longrightarrow> split_sep (x @ CHR ''/'' # ys) = x # split_sep ys"
  by (induction x) auto

lemma split_join_sep:
  "xs \<noteq> [] \<Longrightarrow> \<forall>x\<in>set xs. CHR ''/'' \<notin> set x \<Longrightarrow> split_sep (join_sep xs) = xs"
  by (induction xs rule: join_sep.induct) (auto simp: split_sep_plain split_sep_append)

lemma clean_step_shape:
  assumes "plain ys" "r \<longrightarrow> n = 0"
  shows "\<exists>ys' n'. clean_step r (ys @ replicate n ''..'') x = ys' @ replicate n' ''..''
           \<and> plain ys' \<and> (r \<longrightarrow> n' = 0)"
proof (cases "x = [] \<or> x = ''.''")
  case True
  then show ?thesis using assms by (auto simp: clean_step_def)
next
  case False
  show ?thesis
  proof (cases "x = ''..''")
    case False
    with \<open>\<not> (x = [] \<or> x = ''.'')\<close> have "clean_step r (ys @ replicate n ''..'') x = (x # ys) @ replicate n ''..''"
      by (simp add: clean_step_def)
    moreover have "plain (x # ys)" using assms False \<open>\<not> (x = [] \<or> x = ''.'')\<close> by (simp add: plain_def)
    ultimately show ?thesis using assms by blast
  next
    case True
    show ?thesis
    proof (cases ys)
      case (Cons y ys')
      then have "y \<noteq> ''..''" "plain ys'" using assms by (auto simp: plain_def)
      then have "clean_step r (ys @ replicate n ''..'') x = ys' @ replicate n ''..''"
        using True Cons by (simp add: clean_step_def)
      then show ?thesis using \<open>plain ys'\<close> assms by blast
    next
      case Nil
      show ?thesis
      proof (cases n)
        case 0
        then have "clean_step r (ys @ replicate n ''..'') x = [] @ replicate (if r then 0 else 1) ''..''"
          using True Nil by (simp add: clean_step_def)
        then show ?thesis by (metis (full_types) plain_def empty_iff list.set(1))
      next
        case (Suc m)
        then have "\<not> r" using assms by simp
        then have "clean_step r (ys @ replicate n ''..'') x = [] @ replicate (Suc n) ''..''"
          using True Nil Suc by (simp add: clean_step_def)
        then show ?thesis using \<open>\<not> r\<close> by (metis (full_types) plain_def empty_iff list.set(1))
      qed
    qed
  qed
qed

lemma foldl_clean_shape:
  "plain ys \<Longrightarrow> (r \<longrightarrow> n = 0) \<Longrightarrow>
   \<exists>ys' n'. foldl (clean_step r) (ys @ replicate n ''..'') xs = ys' @ replicate n' ''..''
           \<and> plain ys' \<and> (r \<longrightarrow> n' = 0)"
proof (induction xs arbitrary: ys n)
  case Nil
  then show ?case by auto
next
  case (Cons x xs)
  from clean_step_shape[OF Cons.prems, of x] obtain ys' n' where
    "clean_step r (ys @ replicate n ''..'') x = ys' @ replicate n' ''..''" "plain ys'" "r \<longrightarrow> n' = 0"
    by blast
  with Cons.IH[of ys' n'] show ?case by simp
qed

lemma clean_segs_shape:
  "\<exists>ys n. clean_segs r xs = replicate n ''..'' @ ys \<and> plain ys \<and> (r \<longrightarrow> n = 0)"
proof -
  have "plain []" by (simp add: plain_def)
  from foldl_clean_shape[OF this, of r 0 xs] obtain ys' n' where
    h: "foldl (clean_step r) [] xs = ys' @ replicate n' ''..''" "plain ys'" "r \<longrightarrow> n' = 0"
    by auto
  have "clean_segs r xs = replicate n' ''..'' @ rev ys'"
    by (simp add: clean_segs_def h(1))
  moreover have "plain (rev ys')" using h(2) by (simp add: plain_def)
  ultimately show ?thesis using h(3) by blast
qed

lemma foldl_clean_dots:
  "\<not> r \<Longrightarrow> foldl (clean_step r) (replicate m ''..'') (replicate n ''..'') = replicate (n + m) ''..''"
proof (induction n arbitrary: m)
  case 0
  then show ?case by simp
next
  case (Suc n)
  have "clean_step r (replicate m ''..'') ''..'' = replicate (Suc m) ''..''"
    using Suc.prems by (cases m) (simp_all add: clean_step_def)
  then show ?case using Suc.IH[OF Suc.prems, of "Suc m"] by simp
qed

lemma foldl_clean_plain:
  "plain ys \<Longrightarrow> foldl (clean_step r) acc ys = rev ys @ acc"
  by (induction ys arbitrary: acc) (auto simp: plain_def clean_step_def)

lemma clean_segs_fixed:
  assumes "plain ys" "r \<longrightarrow> n = 0"
  shows "clean_segs r (replicate n ''..'' @ ys) = replicate n ''..'' @ ys"
proof (cases r)
  case True
  then show ?thesis using assms by (simp add: clean_segs_def foldl_clean_plain)
next
  case False
  then show ?thesis
    using assms foldl_clean_dots[of r 0 n] by (simp add: clean_segs_def foldl_clean_plain)
qed

lemma clean_segs_idem: "clean_segs r (clean_segs r xs) = clean_segs r xs"
  using clean_segs_shape[of r xs] clean_segs_fixed by metis

lemma foldl_clean_subset: "set (foldl (clean_step r) acc xs) \<subseteq> set acc \<union> set xs"
proof (induction xs arbitrary: acc)
  case Nil
  then show ?case by simp
next
  case (Cons x xs)
  have "set (clean_step r acc x) \<subseteq> set acc \<union> {x}"
    by (auto simp: clean_step_def split: list.splits if_splits)
  with Cons.IH[of "clean_step r acc x"] show ?case by auto
qed

lemma clean_segs_subset: "set (clean_segs r xs) \<subseteq> set xs"
  using foldl_clean_subset[of r "[]" xs] by (simp add: clean_segs_def)

lemma clean_segs_nonempty:
  assumes "x \<in> set (clean_segs r xs)"
  shows "x \<noteq> []"
proof -
  obtain ys n where h: "clean_segs r xs = replicate n ''..'' @ ys" "plain ys"
    using clean_segs_shape[of r xs] by blast
  from assms have "x = ''..'' \<or> x \<in> set ys" unfolding h(1) by auto
  then show ?thesis using h(2) unfolding plain_def by blast
qed

lemma clean_segs_drop_empty: "clean_segs r ([] # xs) = clean_segs r xs"
  by (simp add: clean_segs_def clean_step_def)

lemma join_sep_Cons: "join_sep (x # xs) = x @ (if xs = [] then [] else CHR ''/'' # join_sep xs)"
  by (cases xs) simp_all

lemma rooted_join_sep:
  assumes "xs \<noteq> []" "\<forall>x\<in>set xs. x \<noteq> [] \<and> CHR ''/'' \<notin> set x"
  shows "\<not> rooted (join_sep xs)"
proof -
  obtain x xs' where xs: "xs = x # xs'" using assms(1) by (cases xs) auto
  then obtain c cs where x: "x = c # cs" "c \<noteq> CHR ''/''" using assms(2) by (cases x) auto
  show ?thesis unfolding xs join_sep_Cons x by (simp add: rooted_def x(2))
qed

lemma path_key_render:
  assumes "clean_segs r segs = segs" "\<forall>x\<in>set segs. CHR ''/'' \<notin> set x" "\<forall>x\<in>set segs. x \<noteq> []"
  shows "path_key (render (r, segs)) = (r, segs)"
proof (cases "segs = []")
  case True
  then show ?thesis
    by (cases r) (simp_all add: render_def path_key_def rooted_def clean_segs_def clean_step_def)
next
  case False
  have sj: "split_sep (join_sep segs) = segs" using False assms(2) by (rule split_join_sep)
  show ?thesis
  proof (cases r)
    case True
    have "render (r, segs) = CHR ''/'' # join_sep segs" using True False by (simp add: render_def)
    then show ?thesis using True sj assms(1) by (simp add: path_key_def rooted_def clean_segs_drop_empty)
  next
    case False
    have "render (r, segs) = join_sep segs" using False \<open>segs \<noteq> []\<close> by (simp add: render_def)
    moreover have "\<not> rooted (join_sep segs)" using rooted_join_sep \<open>segs \<noteq> []\<close> assms(2,3) by blast
    ultimately show ?thesis using False sj assms(1) by (simp add: path_key_def)
  qed
qed

lemma path_key_Clean: "path_key (Clean s) = path_key s"
proof -
  let ?r = "rooted s" and ?segs = "clean_segs (rooted s) (split_sep s)"
  have "\<forall>x\<in>set ?segs. CHR ''/'' \<notin> set x"
    using clean_segs_subset split_sep_no_sep by blast
  moreover have "\<forall>x\<in>set ?segs. x \<noteq> []" using clean_segs_nonempty by blast
  ultimately have "path_key (render (?r, ?segs)) = (?r, ?segs)"
    using path_key_render clean_segs_idem by blast
  moreover have "path_key s = (?r, ?segs)" by (simp add: path_key_def)
  ultimately show ?thesis by (simp add: Clean_def)
qed

lemma render_not_Nil: "\<forall>x\<in>set (snd k). x \<noteq> [] \<Longrightarrow> render k \<noteq> []"
  by (cases k, cases "snd k"; cases "tl (snd k)") (auto simp: render_def)

lemma Clean_not_Nil: "Clean s \<noteq> []"
  unfolding Clean_def by (rule render_not_Nil) (auto simp: path_key_def dest: clean_segs_nonempty)

lemma Clean_idem: "Clean (Clean s) = Clean s"
  by (simp add: Clean_def path_key_Clean[unfolded Clean_def])

lemma Clean_Join: "Join es \<noteq> [] \<Longrightarrow> Clean (Join es) = Join es"
  by (auto simp: Join_def Let_def Clean_idem split: if_splits)

lemma Join_not_Nil: "e \<in> set es \<Longrightarrow> e \<noteq> [] \<Longrightarrow> Join es \<noteq> []"
  by (auto simp: Join_def Let_def Clean_not_Nil filter_empty_conv)

section \<open>Properties of the file system\<close>

lemma resolve_dirs_None_iff:
  "resolve_dirs t as = None \<longleftrightarrow> (\<forall>a\<in>set as. node_at t a = Some Dir)"
  by (induction as) (auto split: option.splits node.splits)

lemma mem_ancestors: "a \<in> set (ancestors k) \<longleftrightarrow> is_below a k"
proof -
  obtain r segs where k: "k = (r, segs)" by (cases k)
  have "strict_prefix xs segs \<longleftrightarrow> (\<exists>i<length segs. xs = take i segs)" for xs
  proof
    assume "strict_prefix xs segs"
    then obtain zs where "segs = xs @ zs" "zs \<noteq> []" by (auto simp: strict_prefix_def prefix_def)
    then have "length xs < length segs" "xs = take (length xs) segs" by auto
    then show "\<exists>i<length segs. xs = take i segs" by blast
  next
    assume "\<exists>i<length segs. xs = take i segs"
    then obtain i where "i < length segs" "xs = take i segs" by blast
    then show "strict_prefix xs segs"
      by (metis append_take_drop_id length_take min.absorb4 nat_neq_iff prefixI strict_prefix_def take_all_iff linorder_not_less)
  qed
  then show ?thesis unfolding k by (cases a) (auto simp: ancestors_def is_below_def)
qed

lemma not_below_self: "\<not> is_below k k"
  by (simp add: is_below_def)

lemma is_below_trans: "is_below a b \<Longrightarrow> is_below b c \<Longrightarrow> is_below a c"
  by (auto simp: is_below_def)

lemma is_below_not_top: "is_below a k \<Longrightarrow> snd k \<noteq> []"
  by (auto simp: is_below_def)

lemma lookup_iff:
  "lookup t k = Inr n \<longleftrightarrow> (\<forall>a. is_below a k \<longrightarrow> node_at t a = Some Dir) \<and> node_at t k = Some n"
proof -
  have "resolve_dirs t (ancestors k) = None \<longleftrightarrow> (\<forall>a. is_below a k \<longrightarrow> node_at t a = Some Dir)"
    unfolding resolve_dirs_None_iff using mem_ancestors by blast
  then show ?thesis
    by (cases "resolve_dirs t (ancestors k)"; cases "node_at t k") (simp_all add: lookup_def)
qed

lemma node_at_update:
  "node_at (AList.update k v t) q = (if snd q = [] then Some Dir else if q = k then Some v else node_at t q)"
  by (simp add: node_at_def update_conv')

lemma node_at_delete:
  "node_at (AList.delete k t) q = (if snd q = [] then Some Dir else if q = k then None else node_at t q)"
  by (simp add: node_at_def delete_conv')

lemma WriteFile_ReadFile:
  assumes "WriteFile t p b = Inr t'" "os_key p' = os_key p"
  shows "ReadFile t' p' = Inr b"
proof -
  from assms(1) obtain k where k: "os_key p = Some k" 
    and res: "resolve_dirs t (ancestors k) = None" and nd: "node_at t k \<noteq> Some Dir"
    and t': "t' = AList.update k (File b) t"
    by (auto simp: WriteFile_def split: option.splits node.splits)
  have top: "snd k \<noteq> []" using nd by (auto simp: node_at_def)
  have "\<forall>a. is_below a k \<longrightarrow> node_at t' a = Some Dir"
    using res not_below_self by (auto simp: t' node_at_update resolve_dirs_None_iff mem_ancestors is_below_not_top simp del: split_paired_All)
  moreover have "node_at t' k = Some (File b)" using top by (simp add: t' node_at_update)
  ultimately have "lookup t' k = Inr (File b)" by (simp add: lookup_iff)
  then show ?thesis using k assms(2) by (simp add: ReadFile_def)
qed

lemma Remove_ReadFile:
  assumes "Remove t p = Inr t'" "os_key p' = os_key p"
  shows "ReadFile t' p' = Inl (PathError ''open'' p' ENOENT)"
proof -
  from assms(1) obtain k n where k: "os_key p = Some k" and lk: "lookup t k = Inr n"
    and top: "n = Dir \<longrightarrow> snd k \<noteq> []" and t': "t' = AList.delete k t"
    by (auto simp: Remove_def split: option.splits node.splits sum.splits if_splits)
  have top': "snd k \<noteq> []" using lk top by (cases n) (auto simp: lookup_iff node_at_def)
  have "resolve_dirs t' (ancestors k) = None"
    using lk not_below_self by (auto simp: t' node_at_delete resolve_dirs_None_iff mem_ancestors lookup_iff simp del: split_paired_All)
  moreover have "node_at t' k = None" using top' by (simp add: t' node_at_delete)
  ultimately have "lookup t' k = Inl ENOENT" by (simp add: lookup_def)
  then show ?thesis using k assms(2) by (simp add: ReadFile_def)
qed

lemma map_of_filter_fst:
  "map_of (filter (\<lambda>e. P (fst e)) t) q = (if P q then map_of t q else None)"
  by (induction t) auto

lemma node_at_mkdir1:
  "node_at t k = None \<Longrightarrow>
   node_at (mkdir1 t k) q = (if q = k then Some Dir else if is_below k q then None else node_at t q)"
proof -
  assume h: "node_at t k = None"
  then have k: "snd k \<noteq> []" "map_of t k = None" by (auto simp: node_at_def split: if_splits)
  have m: "map_of (mkdir1 t k) q =
      (if q = k then Some Dir else if is_below k q then None else map_of t q)"
    unfolding mkdir1_def map_of_append
    using map_of_filter_fst[of "\<lambda>x. \<not> is_below k x" t q] k(2)
    by (auto simp: map_add_def not_below_self split: option.splits)
  show ?thesis
  proof (cases "snd q = []")
    case True
    then have "q \<noteq> k" "\<not> is_below k q" using k(1) by (auto simp: is_below_def)
    then show ?thesis using True by (simp add: node_at_def)
  next
    case False
    then show ?thesis using m by (simp add: node_at_def)
  qed
qed


lemma lookup_mkdir1_keep:
  assumes "node_at t k = None" "lookup t q = Inr n"
  shows "lookup (mkdir1 t k) q = Inr n"
proof -
  have nk: "q \<noteq> k" "\<not> is_below k q" using assms by (auto simp: lookup_iff simp del: split_paired_All)
  then have "\<forall>a. is_below a q \<longrightarrow> a \<noteq> k \<and> \<not> is_below k a" using is_below_trans by blast
  then show ?thesis using assms nk by (auto simp: lookup_iff node_at_mkdir1 simp del: split_paired_All)
qed


lemma mkdirs_keep:
  "mkdirs t ks = Inr t' \<Longrightarrow> lookup t q = Inr n \<Longrightarrow> lookup t' q = Inr n"
  by (induction ks arbitrary: t) (auto simp: lookup_mkdir1_keep split: option.splits node.splits)


lemma ensureDir_keep:
  "ensureDir t d = Inr t' \<Longrightarrow> lookup t q = Inr n \<Longrightarrow> lookup t' q = Inr n"
  by (auto simp: ensureDir_def MkdirAll_def mkdirs_keep split: if_splits option.splits)

section \<open>Properties of the store\<close>

subsection \<open>Reading, and broadcasts\<close>

lemma Contains_suffix: "Contains (a @ sub) sub"
proof (induction a)
  case Nil
  then show ?case by (cases sub) simp_all
next
  case (Cons x a)
  then show ?case by simp
qed

lemma ENOENT_msg: "Contains (Error (PathError opn p ENOENT)) ''no such file or directory''"
  using Contains_suffix[of "opn @ '' '' @ p @ '': ''" "''no such file or directory''"] by simp

lemma objectFileName_not_Nil: "objectFileName f c name \<noteq> []"
proof -
  have "Join (pre @ [name @ ''.json'']) \<noteq> []" for pre
    by (rule Join_not_Nil[where e = "name @ ''.json''"]) simp_all
  from this[of "[objRootPath f, fst (NamespaceFrom c)]"] this[of "[objRootPath f]"]
  show ?thesis by (simp add: objectFileName_def)
qed

lemma Clean_objectFileName: "Clean (objectFileName f c name) = objectFileName f c name"
  using objectFileName_not_Nil[of f c name] unfolding objectFileName_def
  by (auto intro: Clean_Join)

lemma read_obj_objectFileName:
  "read_obj dec t (objectFileName f c name) =
     (case ReadFile t (objectFileName f c name) of Inl err \<Rightarrow> Inl err | Inr b \<Rightarrow> Decode dec b)"
  by (simp add: read_obj_def Clean_objectFileName)

lemma exists_iff: "exists t p \<longleftrightarrow> (\<exists>k n. os_key p = Some k \<and> lookup t k = Inr n)"
  by (auto simp: exists_def Stat_def split: option.splits sum.splits)

lemma ReadFile_Inr_iff: "ReadFile t p = Inr b \<longleftrightarrow> (\<exists>k. os_key p = Some k \<and> lookup t k = Inr (File b))"
  by (auto simp: ReadFile_def split: option.splits sum.splits node.splits)

lemma ReadFile_exists: "ReadFile t p = Inr b \<Longrightarrow> exists t p"
  by (auto simp: ReadFile_Inr_iff exists_iff)

lemma Get_Inr_iff:
  "Get st c name = Inr obj \<longleftrightarrow>
     (\<exists>b. ReadFile (files st) (objectFileName (store st) c name) = Inr b \<and>
          Decode (codec (store st)) b = Inr obj)"
  by (auto simp: Get_def read_obj_objectFileName split: sum.splits)


lemma Get_ENOENT:
  "ReadFile (files st) (objectFileName (store st) c name) = Inl (PathError opn p ENOENT) \<Longrightarrow>
   Get st c name = Inl (NotFound (groupResource (store st)) name)"
  unfolding Get_def read_obj_objectFileName using ENOENT_msg[of opn p] by simp

lemma send_each_length: "send_each ev ws cs = Some cs' \<Longrightarrow> length cs' = length cs"
  by (induction ws arbitrary: cs) (auto simp: send_def split: option.splits if_splits)

lemma send_each_nth:
  "send_each ev ws cs = Some cs' \<Longrightarrow> c < length cs \<Longrightarrow>
   cs' ! c = cs ! c @ replicate (length (filter (\<lambda>w. ch (snd w) = c) ws)) ev"
proof (induction ws arbitrary: cs)
  case Nil
  then show ?case by simp
next
  case (Cons w ws)
  from Cons.prems(1) obtain cs1 where s1: "send cs (ch (snd w)) ev = Some cs1"
    and s2: "send_each ev ws cs1 = Some cs'"
    by (auto split: option.splits)
  from s1 have cs1: "cs1 = cs[ch (snd w) := cs ! ch (snd w) @ [ev]]" "ch (snd w) < length cs"
    by (auto simp: send_def split: if_splits)
  have "c < length cs1" using Cons.prems(2) cs1 by simp
  from Cons.IH[OF s2 this] show ?case
    using cs1 Cons.prems(2) by (auto simp: nth_list_update replicate_append_same)
qed

lemma send_each_room:
  "distinct (map (\<lambda>w. ch (snd w)) ws) \<Longrightarrow>
   \<forall>w\<in>set ws. ch (snd w) < length cs \<and> length (cs ! ch (snd w)) < 10 \<Longrightarrow>
   \<exists>cs'. send_each ev ws cs = Some cs'"
proof (induction ws arbitrary: cs)
  case Nil
  then show ?case by simp
next
  case (Cons w ws)
  let ?cs1 = "cs[ch (snd w) := cs ! ch (snd w) @ [ev]]"
  have s1: "send cs (ch (snd w)) ev = Some ?cs1" using Cons.prems(2) by (simp add: send_def)
  have "\<forall>v\<in>set ws. ch (snd v) < length ?cs1 \<and> length (?cs1 ! ch (snd v)) < 10"
    using Cons.prems by (auto simp: nth_list_update)
  moreover have "distinct (map (\<lambda>w. ch (snd w)) ws)" using Cons.prems(1) by simp
  ultimately obtain cs' where "send_each ev ws ?cs1 = Some cs'" using Cons.IH by blast
  then show ?case using s1 by simp
qed

lemma count_distinct:
  "distinct (map f ws) \<Longrightarrow> w \<in> set ws \<Longrightarrow> length (filter (\<lambda>v. f v = f w) ws) = 1"
proof (induction ws)
  case Nil
  then show ?case by simp
next
  case (Cons a ws)
  show ?case
  proof (cases "a = w")
    case True
    then have "filter (\<lambda>v. f v = f w) ws = []"
      using Cons.prems(1) by (auto simp: filter_empty_conv image_iff)
    then show ?thesis using True by simp
  next
    case False
    then have "w \<in> set ws" "f a \<noteq> f w" using Cons.prems by auto
    then show ?thesis using Cons by simp
  qed
qed

lemma notifyWatchers_room:
  assumes "room st"
  shows "\<exists>st'. notifyWatchers st ev = Some st' \<and> files st' = files st \<and> store st' = store st \<and>
           length (chans st') = length (chans st) \<and>
           (\<forall>w\<in>set (watchers (store st)). ResultChan st' (snd w) = ResultChan st (snd w) @ [ev])"
proof -
  let ?ws = "watchers (store st)"
  have d: "distinct (map (\<lambda>w. ch (snd w)) ?ws)"
    and r: "\<forall>w\<in>set ?ws. ch (snd w) < length (chans st) \<and> length (chans st ! ch (snd w)) < 10"
    using assms by (auto simp: room_def list_all_iff)
  from send_each_room[OF d r] obtain cs' where cs': "send_each ev ?ws (chans st) = Some cs'" by blast
  have "\<forall>w\<in>set ?ws. cs' ! ch (snd w) = chans st ! ch (snd w) @ [ev]"
  proof
    fix w assume w: "w \<in> set ?ws"
    then have "ch (snd w) < length (chans st)" using r by blast
    from send_each_nth[OF cs' this] count_distinct[OF d w] show "cs' ! ch (snd w) = chans st ! ch (snd w) @ [ev]"
      by simp
  qed
  then show ?thesis using cs' send_each_length[OF cs'] by (simp add: notifyWatchers_def ResultChan_def)
qed

lemma notifyWatchers_frame:
  "notifyWatchers st ev = Some st' \<Longrightarrow> files st' = files st \<and> store st' = store st"
  by (auto simp: notifyWatchers_def split: option.splits)

lemma room_files [simp]: "room (st\<lparr>files := t\<rparr>) = room st"
  by (simp add: room_def)

subsection \<open>Create, Watch and failed operations\<close>

lemma Create_success:
  assumes "Create st c obj cv = Some (Inr x, st')"
  shows "\<exists>t1 name t2. validate cv c obj = None \<and> ensureNamespace st c = Inr t1 \<and>
           accessor (store st) obj = Inr name \<and>
           \<not> exists t1 (objectFileName (store st) c name) \<and>
           write_obj (codec (store st)) t1 (objectFileName (store st) c name) obj = Inr t2 \<and>
           notifyWatchers (st\<lparr>files := t2\<rparr>) \<lparr>Type = Added, Object = obj\<rparr> = Some st' \<and> x = obj"
  using assms unfolding Create_def Let_def
  by (auto split: option.splits sum.splits if_splits)

lemma write_obj_ReadFile:
  assumes "write_obj cdc t p obj = Inr t'"
  shows "\<exists>b. Encode cdc obj = Inr b \<and> ReadFile t' p = Inr b"
  using assms WriteFile_ReadFile[of t p _ t' p]
  by (auto simp: write_obj_def split: sum.splits)

lemma List_chans [simp]: "List (st\<lparr>chans := cs\<rparr>) c = List st c"
  by (simp add: List_def Let_def split: sum.splits)

lemma send_items_room:
  "c < length cs \<Longrightarrow> length (cs ! c) + length items \<le> 10 \<Longrightarrow>
   send_items items c cs = Some (cs[c := cs ! c @ map (\<lambda>obj. \<lparr>Type = Added, Object = obj\<rparr>) items])"
proof (induction items arbitrary: cs)
  case Nil
  then show ?case by simp
next
  case (Cons obj items)
  let ?cs1 = "cs[c := cs ! c @ [\<lparr>Type = Added, Object = obj\<rparr>]]"
  have "send cs c \<lparr>Type = Added, Object = obj\<rparr> = Some ?cs1" using Cons.prems by (simp add: send_def)
  moreover have "send_items items c ?cs1 = Some (?cs1[c := ?cs1 ! c @ map (\<lambda>obj. \<lparr>Type = Added, Object = obj\<rparr>) items])"
    using Cons.prems by (intro Cons.IH) simp_all
  ultimately show ?case using Cons.prems by simp
qed

lemma Watch_items:
  assumes "List st c = Inr items" "length items \<le> 10"
  shows "Watch st c =
     Some (Inr \<lparr>id_jw = length (watchers (store st)), ch = length (chans st)\<rparr>,
           st\<lparr>chans := chans st @ [map (\<lambda>obj. \<lparr>Type = Added, Object = obj\<rparr>) items],
              store := (store st)\<lparr>watchers :=
                AList.update (length (watchers (store st)))
                  \<lparr>id_jw = length (watchers (store st)), ch = length (chans st)\<rparr>
                  (watchers (store st))\<rparr>\<rparr>)"
proof -
  have "send_items items (length (chans st)) (chans st @ [[]]) =
      Some ((chans st @ [[]])[length (chans st) := (chans st @ [[]]) ! length (chans st) @
         map (\<lambda>obj. \<lparr>Type = Added, Object = obj\<rparr>) items])"
    using assms(2) by (intro send_items_room) simp_all
  then show ?thesis using assms(1) by (simp add: Watch_def Let_def)
qed

lemma Create_failed:
  "Create st c obj cv = Some (Inl err, st') \<Longrightarrow> chans st' = chans st \<and> store st' = store st"
  unfolding Create_def Let_def
  by (auto split: option.splits sum.splits if_splits)

lemma Update_failed:
  "Update st c name objInfo cv uv force = Some (Inl err, st') \<Longrightarrow>
   chans st' = chans st \<and> store st' = store st"
  unfolding Update_def Let_def
  by (auto split: option.splits sum.splits if_splits)

lemma Delete_failed:
  "Delete st c name dv = Some (Inl err, st') \<Longrightarrow> chans st' = chans st \<and> store st' = store st"
  unfolding Delete_def Let_def
  by (auto split: option.splits sum.splits if_splits)

subsection \<open>What List returns, from the files\<close>

lemma below_entries_iff:
  "(q, n) \<in> set (below_entries t k) \<longleftrightarrow> is_below k q \<and> lookup t q = Inr n"
proof -
  have m: "(q, n) \<in> set (AList.clearjunk t) \<longleftrightarrow> map_of t q = Some n"
    using map_of_eq_Some_iff[OF distinct_clearjunk, of t q n] by (simp add: map_of_clearjunk)
  have "is_below k q \<Longrightarrow> node_at t q = map_of t q"
    using is_below_not_top[of k q] by (simp add: node_at_def)
  then show ?thesis
    by (auto simp: below_entries_def m lookup_def split: option.splits)
qed

lemma distinct_below_entries: "distinct (below_entries t k)"
proof -
  have "distinct (AList.clearjunk t)"
    using distinct_clearjunk[of t] by (rule distinct_map[THEN iffD1, THEN conjunct1])
  then show ?thesis by (simp add: below_entries_def)
qed

lemma read_obj_render:
  assumes "lookup t (path_key p) = Inr (File b)"
  shows "read_obj dec t (render (path_key p)) = Decode dec b"
proof -
  have "Clean (render (path_key p)) = Clean p" using Clean_idem[of p] by (simp add: Clean_def)
  moreover have "os_key (Clean p) = Some (path_key p)"
    by (simp add: os_key_def Clean_not_Nil path_key_Clean)
  ultimately show ?thesis using assms by (simp add: read_obj_def ReadFile_def)
qed

lemma walk_list_items:
  assumes "\<forall>e\<in>set es. is_json_file e \<longrightarrow> read_obj dec t (render (fst e)) = Inr (g e)"
  shows "walk_list
           (\<lambda>p r s'.
              case r of
                Inl err \<Rightarrow> (Some err, s')
              | Inr info \<Rightarrow>
                  if IsDir info then (None, s')
                  else if \<not> HasSuffix (Name info) ''.json'' then (None, s')
                  else (case read_obj dec (fst s') p of
                          Inl err \<Rightarrow> (Some err, s')
                        | Inr obj \<Rightarrow> (None, (fst s', appendItem (snd s') obj))))
           (map (\<lambda>e. (render (fst e), \<lparr>Name = base_name (fst e), IsDir = (snd e = Dir)\<rparr>)) es)
           (t, v) =
         (None, (t, v @ map g (filter is_json_file es)))"
  using assms
proof (induction es arbitrary: v)
  case Nil
  then show ?case by simp
next
  case (Cons e es)
  then have IH: "\<And>v. walk_list
           (\<lambda>p r s'.
              case r of
                Inl err \<Rightarrow> (Some err, s')
              | Inr info \<Rightarrow>
                  if IsDir info then (None, s')
                  else if \<not> HasSuffix (Name info) ''.json'' then (None, s')
                  else (case read_obj dec (fst s') p of
                          Inl err \<Rightarrow> (Some err, s')
                        | Inr obj \<Rightarrow> (None, (fst s', appendItem (snd s') obj))))
           (map (\<lambda>e. (render (fst e), \<lparr>Name = base_name (fst e), IsDir = (snd e = Dir)\<rparr>)) es)
           (t, v) =
         (None, (t, v @ map g (filter is_json_file es)))"
    by simp
  show ?case
  proof (cases "is_json_file e")
    case True
    then have r: "read_obj dec t (render (fst e)) = Inr (g e)" using Cons.prems by simp
    have j: "snd e \<noteq> Dir" "HasSuffix (base_name (fst e)) ''.json''"
      using True by (simp_all add: is_json_file_def)
    show ?thesis using True by (simp add: r j IH appendItem_def)
  next
    case False
    then have j: "snd e = Dir \<or> \<not> HasSuffix (base_name (fst e)) ''.json''"
      by (simp add: is_json_file_def)
    show ?thesis using False j by (auto simp: IH)
  qed
qed

lemma List_items:
  assumes nl: "newListFunc (store st) = ItemsList []"
    and dir: "Stat (files st) (objectDirName (store st) c) = Inr Dir"
    and rd: "\<forall>e\<in>set (below_entries (files st) (path_key (objectDirName (store st) c))).
        is_json_file e \<longrightarrow> read_obj (codec (store st)) (files st) (render (fst e)) = Inr (g e)"
  shows "List st c =
     Inr (map g (filter is_json_file
        (below_entries (files st) (path_key (objectDirName (store st) c)))))"
  using walk_list_items[OF rd, of "[]"] nl dir
  by (simp add: List_def getListPrt_def visitDir_def Walk_def walk_entries_def)

lemma json_files_two:
  assumes ea: "lookup t ka = Inr (File ba)" "is_below k ka" "HasSuffix (base_name ka) ''.json''"
    and eb: "lookup t kb = Inr (File bb)" "is_below k kb" "HasSuffix (base_name kb) ''.json''"
    and ne: "ka \<noteq> kb"
    and only: "\<forall>q content. is_below k q \<and> lookup t q = Inr (File content) \<and>
        HasSuffix (base_name q) ''.json'' \<longrightarrow> q = ka \<or> q = kb"
  shows "set (filter is_json_file (below_entries t k)) = {(ka, File ba), (kb, File bb)}"
    and "mset (filter is_json_file (below_entries t k)) = {#(ka, File ba), (kb, File bb)#}"
proof -
  let ?J = "filter is_json_file (below_entries t k)"
  show S: "set ?J = {(ka, File ba), (kb, File bb)}"
  proof (rule set_eqI)
    fix e :: "path_key \<times> node"
    obtain q n where e: "e = (q, n)" by (cases e)
    show "e \<in> set ?J \<longleftrightarrow> e \<in> {(ka, File ba), (kb, File bb)}"
    proof
      assume "e \<in> set ?J"
      then have m: "is_below k q" "lookup t q = Inr n" and j: "n \<noteq> Dir" "HasSuffix (base_name q) ''.json''"
        by (auto simp: e below_entries_iff is_json_file_def)
      from j(1) obtain content where n: "n = File content" by (cases n) auto
      from only m j(2) n have "q = ka \<or> q = kb" by blast
      then show "e \<in> {(ka, File ba), (kb, File bb)}"
        using m(2) ea(1) eb(1) by (auto simp: e)
    next
      assume "e \<in> {(ka, File ba), (kb, File bb)}"
      then show "e \<in> set ?J"
        using ea eb by (auto simp: below_entries_iff is_json_file_def)
    qed
  qed
  have "distinct ?J" using distinct_below_entries by simp
  then have "mset_set (set ?J) = mset ?J" by (rule mset_set_set)
  then have "mset ?J = mset_set {(ka, File ba), (kb, File bb)}"
    unfolding S by (rule sym)
  then show "mset ?J = {#(ka, File ba), (kb, File bb)#}" using ne by simp
qed

lemma ReadFile_lookup: "ReadFile t p = Inr b \<Longrightarrow> lookup t (path_key p) = Inr (File b)"
  by (auto simp: ReadFile_Inr_iff os_key_def split: if_splits)

lemma List_two_files:
  assumes nl: "newListFunc (store st) = ItemsList []"
    and d: "d = (if isNamespaced (store st)
                 then Join [objRootPath (store st), fst (NamespaceFrom c)]
                 else objRootPath (store st))"
    and dir: "Stat (files st) d = Inr Dir"
    and fa: "ReadFile (files st) pa = Inr ba" "Decode (codec (store st)) ba = Inr a"
      "is_below (path_key d) (path_key pa)" "HasSuffix (base_name (path_key pa)) ''.json''"
    and fb: "ReadFile (files st) pb = Inr bb" "Decode (codec (store st)) bb = Inr b"
      "is_below (path_key d) (path_key pb)" "HasSuffix (base_name (path_key pb)) ''.json''"
    and ne: "path_key pa \<noteq> path_key pb"
    and only: "\<forall>q content. is_below (path_key d) q \<and> lookup (files st) q = Inr (File content) \<and>
        HasSuffix (base_name q) ''.json'' \<longrightarrow> q = path_key pa \<or> q = path_key pb"
  shows "\<exists>items. List st c = Inr items \<and> mset items = {#a, b#}"
proof -
  let ?t = "files st" and ?k = "path_key d" and ?ka = "path_key pa" and ?kb = "path_key pb"
  let ?es = "below_entries ?t ?k"
  let ?g = "\<lambda>e::path_key \<times> node. if fst e = ?ka then a else b"
  have od: "objectDirName (store st) c = d" by (simp add: objectDirName_def d)
  have la: "lookup ?t ?ka = Inr (File ba)" and lb: "lookup ?t ?kb = Inr (File bb)"
    using fa(1) fb(1) by (simp_all add: ReadFile_lookup)
  note J = json_files_two[OF la fa(3,4) lb fb(3,4) ne only]
  have rd: "\<forall>e\<in>set ?es. is_json_file e \<longrightarrow>
      read_obj (codec (store st)) ?t (render (fst e)) = Inr (?g e)"
  proof (intro ballI impI)
    fix e assume "e \<in> set ?es" "is_json_file e"
    then have "e \<in> set (filter is_json_file ?es)" by simp
    then have "e \<in> {(?ka, File ba), (?kb, File bb)}" unfolding J(1) .
    then have "e = (?ka, File ba) \<or> e = (?kb, File bb)" by blast
    then show "read_obj (codec (store st)) ?t (render (fst e)) = Inr (?g e)"
      using read_obj_render[OF la, of "codec (store st)"] read_obj_render[OF lb, of "codec (store st)"]
        fa(2) fb(2) ne by auto
  qed
  have "List st c = Inr (map ?g (filter is_json_file ?es))"
    using List_items[of st c ?g] nl dir rd by (simp add: od)
  moreover have "mset (map ?g (filter is_json_file ?es)) = {#a, b#}"
    using J(2) ne by simp
  ultimately show ?thesis by blast
qed

lemma Watch_of_List:
  assumes "List st c = Inr items" "mset items = {#a, b#}"
  shows "\<exists>w st'. Watch st c = Some (Inr w, st') \<and>
           mset (ResultChan st' w) = {#\<lparr>Type = Added, Object = a\<rparr>, \<lparr>Type = Added, Object = b\<rparr>#} \<and>
           map_of (watchers (store st')) (id_jw w) = Some w \<and>
           (\<forall>ev cs. send (chans st') (ch w) ev = Some cs \<longrightarrow> cs ! ch w = ResultChan st' w @ [ev])"
proof -
  have "size (mset items) = 2" using assms(2) by simp
  then have len: "length items \<le> 10" by simp
  let ?w = "\<lparr>id_jw = length (watchers (store st)), ch = length (chans st)\<rparr>"
  let ?evs = "map (\<lambda>obj. \<lparr>Type = Added, Object = obj\<rparr>) items"
  let ?st' = "st\<lparr>chans := chans st @ [?evs],
              store := (store st)\<lparr>watchers := AList.update (length (watchers (store st))) ?w (watchers (store st))\<rparr>\<rparr>"
  have W: "Watch st c = Some (Inr ?w, ?st')" by (rule Watch_items[OF assms(1) len])
  have R: "ResultChan ?st' ?w = ?evs" by (simp add: ResultChan_def)
  have "mset ?evs = image_mset (\<lambda>obj. \<lparr>Type = Added, Object = obj\<rparr>) (mset items)" by simp
  then have M: "mset (ResultChan ?st' ?w) = {#\<lparr>Type = Added, Object = a\<rparr>, \<lparr>Type = Added, Object = b\<rparr>#}"
    unfolding R assms(2) by simp
  have G: "map_of (watchers (store ?st')) (id_jw ?w) = Some ?w" by (simp add: update_conv')
  have S: "\<forall>ev cs. send (chans ?st') (ch ?w) ev = Some cs \<longrightarrow> cs ! ch ?w = ResultChan ?st' ?w @ [ev]"
    by (auto simp: send_def ResultChan_def split: if_splits)
  show ?thesis using W M G S by blast
qed

subsection \<open>Delete, and Update on a missing object\<close>

lemma Delete_missing:
  "\<not> exists (files st) (objectFileName (store st) c name) \<Longrightarrow>
   Delete st c name dv = Some (Inl ErrFileNotExists, st)"
  by (simp add: Delete_def)

lemma Remove_file:
  "ReadFile t p = Inr b \<Longrightarrow> \<exists>k. os_key p = Some k \<and> Remove t p = Inr (AList.delete k t)"
  by (auto simp: ReadFile_Inr_iff Remove_def)

lemma Delete_existing:
  assumes g: "Get st c name = Inr obj" and v: "validate dv c obj = None" and r: "room st"
  shows "\<exists>st'. Delete st c name dv = Some (Inr (obj, True), st') \<and>
           Remove (files st) (objectFileName (store st) c name) = Inr (files st') \<and>
           \<not> exists (files st') (objectFileName (store st) c name) \<and>
           Get st' c name = Inl (NotFound (groupResource (store st)) name) \<and>
           store st' = store st \<and>
           (\<forall>w\<in>set (watchers (store st)).
              ResultChan st' (snd w) = ResultChan st (snd w) @ [\<lparr>Type = Deleted, Object = obj\<rparr>])"
proof -
  let ?fn = "objectFileName (store st) c name"
  from g obtain b where b: "ReadFile (files st) ?fn = Inr b" by (auto simp: Get_Inr_iff)
  from Remove_file[OF b] obtain t' where t': "Remove (files st) ?fn = Inr t'" by blast
  have ex: "exists (files st) ?fn" using b by (rule ReadFile_exists)
  have "room (st\<lparr>files := t'\<rparr>)" using r by simp
  from notifyWatchers_room[OF this, of "\<lparr>Type = Deleted, Object = obj\<rparr>"] obtain st' where
    n: "notifyWatchers (st\<lparr>files := t'\<rparr>) \<lparr>Type = Deleted, Object = obj\<rparr> = Some st'"
    and fr: "files st' = t'" "store st' = store st"
    and evs: "\<forall>w\<in>set (watchers (store st)).
        ResultChan st' (snd w) = ResultChan st (snd w) @ [\<lparr>Type = Deleted, Object = obj\<rparr>]"
    by (auto simp: ResultChan_def)
  have D: "Delete st c name dv = Some (Inr (obj, True), st')"
    using ex g v t' n by (simp add: Delete_def)
  have rd: "ReadFile (files st') ?fn = Inl (PathError ''open'' ?fn ENOENT)"
    using Remove_ReadFile[OF t' refl] fr by simp
  then have nex: "\<not> exists (files st') ?fn"
    by (auto simp: exists_iff ReadFile_def split: option.splits sum.splits node.splits)
  have G: "Get st' c name = Inl (NotFound (groupResource (store st)) name)"
    using Get_ENOENT[of st' c name "''open''" ?fn] rd fr by simp
  show ?thesis using D t' fr nex G evs by auto
qed




lemma absent_before_ensure:
  assumes "\<not> exists t1 p" "ensureNamespace st c = Inr t1"
  shows "\<not> exists (files st) p"
  using assms
  by (auto simp: exists_iff ensureNamespace_def dest: ensureDir_keep split: if_splits prod.splits)

lemma Create_existing:
  assumes "validate cv c obj = None" "accessor (store st) obj = Inr name"
    and "exists (files st) (objectFileName (store st) c name)"
    and "ensureNamespace st c = Inr t1"
  shows "Create st c obj cv = Some (Inl ErrFileNotExists, st\<lparr>files := t1\<rparr>)"
proof -
  have "exists t1 (objectFileName (store st) c name)"
    using assms(3,4) absent_before_ensure by blast
  then show ?thesis using assms(1,2,4) by (simp add: Create_def)
qed




subsection \<open>A context without a namespace\<close>

lemma Join_empty_elem: "Join (x # [] # xs) = Join (x # xs)"
  by (simp add: Join_def)

lemma Join_Join: "Join [Join es, []] = Join es"
proof (cases "Join es = []")
  case True
  then show ?thesis by (simp add: Join_def)
next
  case False
  then show ?thesis using Clean_Join[OF False] by (simp add: Join_def)
qed

lemma objectFileName_no_namespace:
  "objectFileName f None name = Join [objRootPath f, name @ ''.json'']"
  by (simp add: objectFileName_def NamespaceFrom_def Join_empty_elem)

lemma Get_clusterScoped: "Get st None name = Get (clusterScoped st) None name"
  by (simp add: Get_def clusterScoped_def objectFileName_no_namespace split: sum.splits)

lemma notifyWatchers_clusterScoped:
  "notifyWatchers (clusterScoped s) ev = map_option clusterScoped (notifyWatchers s ev)"
  by (simp add: notifyWatchers_def clusterScoped_def split: option.splits)

lemma clusterScoped_files: "clusterScoped (st\<lparr>files := t\<rparr>) = (clusterScoped st)\<lparr>files := t\<rparr>"
  by (simp add: clusterScoped_def)

lemma Delete_clusterScoped:
  "Delete (clusterScoped st) None name dv =
     map_option (\<lambda>rs. (fst rs, clusterScoped (snd rs))) (Delete st None name dv)"
proof -
  have fn: "objectFileName (store (clusterScoped st)) None name = objectFileName (store st) None name"
    by (simp add: objectFileName_no_namespace clusterScoped_def)
  have fl: "files (clusterScoped st) = files st" by (simp add: clusterScoped_def)
  show ?thesis
    unfolding Delete_def Let_def fn fl Get_clusterScoped[symmetric]
    by (auto simp: notifyWatchers_clusterScoped clusterScoped_files[symmetric]
        split: sum.splits option.splits)
qed

lemma List_clusterScoped:
  assumes "isNamespaced (store st)" "objRootPath (store st) = Join es"
  shows "List st None = List (clusterScoped st) None"
proof -
  have "objectDirName (store st) None = objectDirName (store (clusterScoped st)) None"
    using assms Join_Join[of es] by (simp add: objectDirName_def NamespaceFrom_def clusterScoped_def)
  then show ?thesis by (simp add: List_def clusterScoped_def Let_def split: sum.splits)
qed

lemma Create_no_namespace:
  assumes "isNamespaced (store st)"
  shows "Create st None obj cv =
     (case validate cv None obj of Some err \<Rightarrow> Some (Inl err, st)
      | None \<Rightarrow> Some (Inl ErrNamespaceNotExists, st))"
  using assms by (simp add: Create_def ensureNamespace_def NamespaceFrom_def split: option.splits)

lemma Update_no_namespace:
  assumes "isNamespaced (store st)"
  shows "Update st None name objInfo cv uv force =
     (case Get st None name of
        Inl err \<Rightarrow> if \<not> force then Some (Inl err, st) else Some (Inl ErrNamespaceNotExists, st)
      | Inr old \<Rightarrow> Some (Inl ErrNamespaceNotExists, st))"
  using assms by (simp add: Update_def ensureNamespace_def NamespaceFrom_def split: sum.splits)

section \<open>Runs of the example store\<close>

lemma ex_root: "Join [''data'', ''config'', ''things''] = ''data/config/things''" by code_simp

lemma ex_foo_name: "Join [''data/config/things'', ''foo.json''] = ''data/config/things/foo.json''" by code_simp

lemma ex_bar_name: "Join [''data/config/things'', ''bar.json''] = ''data/config/things/bar.json''" by code_simp

lemma ex_ns1_name: "Join [''data/config/things'', ''ns1''] = ''data/config/things/ns1''" by code_simp

lemma ex_ns2_name: "Join [''data/config/things'', ''ns2''] = ''data/config/things/ns2''" by code_simp

lemma ex_ns1_foo_name: "Join [''data/config/things'', ''ns1'', ''foo.json''] = ''data/config/things/ns1/foo.json''" by code_simp

lemma ex_root_key: "path_key ''data/config/things'' = (False, [''data'', ''config'', ''things''])" by code_simp

lemma ex_foo_key: "path_key ''data/config/things/foo.json'' = (False, [''data'', ''config'', ''things'', ''foo.json''])" by code_simp

lemma ex_bar_key: "path_key ''data/config/things/bar.json'' = (False, [''data'', ''config'', ''things'', ''bar.json''])" by code_simp

lemma ex_ns1_key: "path_key ''data/config/things/ns1'' = (False, [''data'', ''config'', ''things'', ''ns1''])" by code_simp

lemma ex_ns2_key: "path_key ''data/config/things/ns2'' = (False, [''data'', ''config'', ''things'', ''ns2''])" by code_simp

lemma ex_ns1_foo_key: "path_key ''data/config/things/ns1/foo.json'' = (False, [''data'', ''config'', ''things'', ''ns1'', ''foo.json''])" by code_simp

lemma ex_foo_clean: "Clean ''data/config/things/foo.json'' = ''data/config/things/foo.json''" by code_simp

lemma ex_bar_clean: "Clean ''data/config/things/bar.json'' = ''data/config/things/bar.json''" by code_simp

lemma ex_ns1_foo_clean: "Clean ''data/config/things/ns1/foo.json'' = ''data/config/things/ns1/foo.json''" by code_simp

lemma ex_foo_render: "render (False, [''data'', ''config'', ''things'', ''foo.json'']) = ''data/config/things/foo.json''" by code_simp

lemma ex_bar_render: "render (False, [''data'', ''config'', ''things'', ''bar.json'']) = ''data/config/things/bar.json''" by code_simp

lemma ex_ns1_foo_render: "render (False, [''data'', ''config'', ''things'', ''ns1'', ''foo.json'']) = ''data/config/things/ns1/foo.json''" by code_simp

lemma ex_suffix: "HasSuffix ''foo.json'' ''.json''" "HasSuffix ''bar.json'' ''.json''" by code_simp+

lemma ex_below_none: "below_entries example_dirs (False, [''data'', ''config'', ''things'']) = []" by code_simp

lemma ex_below_foo: "below_entries (example_dirs @ [foo_file]) (False, [''data'', ''config'', ''things'']) = [foo_file]" by code_simp

lemma ex_below_foo_bar: "below_entries (example_dirs @ [foo_file, bar_file]) (False, [''data'', ''config'', ''things'']) = [bar_file, foo_file]" by code_simp

lemma ex_below_ns1: "below_entries (example_dirs @ [ns1_dir, ns1_foo_file]) (False, [''data'', ''config'', ''things'', ''ns1'']) = [ns1_foo_file]" by code_simp

lemmas ex_paths = ex_root ex_foo_name ex_bar_name ex_ns1_name ex_ns2_name ex_ns1_foo_name
  ex_root_key ex_foo_key ex_bar_key ex_ns1_key ex_ns2_key ex_ns1_foo_key
  ex_foo_clean ex_bar_clean ex_ns1_foo_clean ex_foo_render ex_bar_render ex_ns1_foo_render ex_suffix

lemmas ex_defs = example_new_def example_state_def example_rest_def example_dirs_def
  example_codec_def example_gr_def example_accessor_def example_foo_def example_bar_def foo_file_def bar_file_def
  ns1_dir_def ns1_foo_file_def example_reject_def example_info_def

lemmas fs_defs = Stat_def ReadFile_def WriteFile_def Remove_def MkdirAll_def lookup_def node_at_def
  os_key_def ancestors_def mkdir1_def is_below_def exists_def ensureDir_def upt_rec

lemmas op_defs = validate_def validateUpdate_def ensureNamespace_def NamespaceFrom_def
  objectFileName_def objectDirName_def write_obj_def read_obj_def getListPrt_def appendItem_def
  visitDir_def Walk_def walk_entries_def base_name_def

lemma ex_made:
  "NewFilepathREST [] example_gr example_codec ''data'' namespaced example_accessor (ItemsList [])
     = Inr (example_new namespaced)"
  by (simp add: NewFilepathREST_def ex_defs fs_defs ex_paths)

lemma ex_Create_foo:
  "Create (example_state False ws example_dirs cs) None example_foo None =
     (case send_each \<lparr>Type = Added, Object = example_foo\<rparr> ws cs of
        None \<Rightarrow> None
      | Some cs' \<Rightarrow> Some (Inr example_foo, example_state False ws (example_dirs @ [foo_file]) cs'))"
  by (simp add: Create_def notifyWatchers_def ex_defs fs_defs op_defs ex_paths split: option.splits)

lemma ex_Get_foo:
  "Get (example_state False ws (example_dirs @ [foo_file]) cs) None ''foo'' = Inr example_foo"
  by (simp add: Get_def ex_defs fs_defs op_defs ex_paths)

lemma ex_Get_missing:
  "Get (example_state namespaced ws example_dirs cs) None ''foo'' = Inl (NotFound example_gr ''foo'')"
  by (simp add: Get_def ex_defs fs_defs op_defs ex_paths Join_empty_elem ENOENT_msg del: Error.simps)

lemma ex_List_none: "List (example_state False ws example_dirs cs) None = Inr []"
  by (simp add: List_def ex_below_none[unfolded example_dirs_def] ex_defs fs_defs op_defs ex_paths)

lemma ex_List_foo: "List (example_state False ws (example_dirs @ [foo_file]) cs) None = Inr [example_foo]"
  by (simp add: List_def ex_below_foo[unfolded example_dirs_def foo_file_def, simplified] ex_defs fs_defs op_defs ex_paths)

lemma ex_List_foo_bar:
  "List (example_state False ws (example_dirs @ [foo_file, bar_file]) cs) None = Inr [example_bar, example_foo]"
  by (simp add: List_def ex_below_foo_bar[unfolded example_dirs_def foo_file_def bar_file_def, simplified] ex_defs fs_defs op_defs ex_paths)

lemma ex_Watch_none:
  "Watch (example_state False ws example_dirs cs) None =
     Some (Inr \<lparr>id_jw = length ws, ch = length cs\<rparr>,
           example_state False (AList.update (length ws) \<lparr>id_jw = length ws, ch = length cs\<rparr> ws)
             example_dirs (cs @ [[]]))"
  using Watch_items[OF ex_List_none, of ws cs] by (simp add: example_state_def)

lemma ex_Watch_foo:
  "Watch (example_state False ws (example_dirs @ [foo_file]) cs) None =
     Some (Inr \<lparr>id_jw = length ws, ch = length cs\<rparr>,
           example_state False (AList.update (length ws) \<lparr>id_jw = length ws, ch = length cs\<rparr> ws)
             (example_dirs @ [foo_file]) (cs @ [[\<lparr>Type = Added, Object = example_foo\<rparr>]]))"
  using Watch_items[OF ex_List_foo, of ws cs] by (simp add: example_state_def)

lemma ex_Watch_foo_bar:
  "Watch (example_state False ws (example_dirs @ [foo_file, bar_file]) cs) None =
     Some (Inr \<lparr>id_jw = length ws, ch = length cs\<rparr>,
           example_state False (AList.update (length ws) \<lparr>id_jw = length ws, ch = length cs\<rparr> ws)
             (example_dirs @ [foo_file, bar_file])
             (cs @ [[\<lparr>Type = Added, Object = example_bar\<rparr>, \<lparr>Type = Added, Object = example_foo\<rparr>]]))"
  using Watch_items[OF ex_List_foo_bar, of ws cs] by (simp add: example_state_def)

lemma ex_DeleteCollection_foo:
  "DeleteCollection (example_state False ws (example_dirs @ [foo_file]) cs) None dv =
     (Inr [example_foo], example_state False ws example_dirs cs)"
  by (simp add: DeleteCollection_def ex_below_foo[unfolded example_dirs_def foo_file_def, simplified]
      ex_defs fs_defs op_defs ex_paths AList.delete_eq)

lemma ex_Delete_foo:
  "Delete (example_state False ws (example_dirs @ [foo_file]) cs) None ''foo'' None =
     (case send_each \<lparr>Type = Deleted, Object = example_foo\<rparr> ws cs of
        None \<Rightarrow> None
      | Some cs' \<Rightarrow> Some (Inr (example_foo, True), example_state False ws example_dirs cs'))"
proof -
  let ?S = "example_state False ws (example_dirs @ [foo_file]) cs"
  have e: "exists (files ?S) (objectFileName (store ?S) None ''foo'')"
    by (simp add: ex_defs fs_defs op_defs ex_paths)
  have r: "Remove (files ?S) (objectFileName (store ?S) None ''foo'') = Inr example_dirs"
    by (simp add: ex_defs fs_defs op_defs ex_paths AList.delete_eq)
  have n: "notifyWatchers (?S\<lparr>files := example_dirs\<rparr>) ev =
      (case send_each ev ws cs of None \<Rightarrow> None
       | Some cs' \<Rightarrow> Some (example_state False ws example_dirs cs'))" for ev
    by (simp add: notifyWatchers_def example_state_def split: option.splits)
  show ?thesis
    by (simp add: Delete_def e ex_Get_foo r validate_def n split: option.splits)
qed

lemma ex_Create_foo_again:
  "Create (example_state False ws (example_dirs @ [foo_file]) cs) None (''foo'', ''y'') None =
     Some (Inl ErrFileNotExists, example_state False ws (example_dirs @ [foo_file]) cs)"
  by (simp add: Create_def ex_defs fs_defs op_defs ex_paths)

lemma ex_Create_ns1:
  "Create (example_new True) (Some ''ns1'') example_foo None =
     Some (Inr example_foo, example_state True [] (example_dirs @ [ns1_dir, ns1_foo_file]) [])"
  by (simp add: Create_def notifyWatchers_def ex_defs fs_defs op_defs ex_paths)

lemma ex_List_ns1:
  "List (example_state True [] (example_dirs @ [ns1_dir, ns1_foo_file]) []) (Some ''ns1'') = Inr [example_foo]"
  by (simp add: List_def ex_below_ns1[unfolded example_dirs_def ns1_dir_def ns1_foo_file_def, simplified]
      ex_defs fs_defs op_defs ex_paths)

lemma ex_List_ns2:
  "List (example_state True [] (example_dirs @ [ns1_dir, ns1_foo_file]) []) (Some ''ns2'') =
     Inl (Errorf ''failed walking filepath data/config/things/ns2'')"
  by (simp add: List_def ex_defs fs_defs op_defs ex_paths)

lemma ex_Update_reject:
  "Update (example_new True) (Some ''ns1'') ''foo'' example_info example_reject None True =
     Some (Inl (External ''rejected''), example_state True [] (example_dirs @ [ns1_dir]) [])"
proof -
  have g: "Get (example_new True) (Some ''ns1'') ''foo'' = Inl (NotFound example_gr ''foo'')"
    by (simp add: Get_def ex_defs fs_defs op_defs ex_paths ENOENT_msg del: Error.simps)
  have n: "ensureNamespace (example_new True) (Some ''ns1'') = Inr (example_dirs @ [ns1_dir])"
    by (simp add: ex_defs fs_defs op_defs ex_paths)
  have s: "(example_new True)\<lparr>files := example_dirs @ [ns1_dir]\<rparr> =
      example_state True [] (example_dirs @ [ns1_dir]) []"
    by (simp add: example_new_def example_state_def)
  show ?thesis
    by (simp add: Update_def g n s example_info_def example_reject_def validate_def)
qed

lemma ex_Update_missing:
  "Update (example_state namespaced ws example_dirs cs) None ''foo'' objInfo cv uv False =
     Some (Inl (NotFound example_gr ''foo''), example_state namespaced ws example_dirs cs)"
  by (simp add: Update_def ex_Get_missing)

lemma ex_absent_foo:
  "exists (files (example_state namespaced ws example_dirs cs))
     (objectFileName (store (example_state namespaced ws example_dirs cs)) None ''foo'') = False"
  by (simp add: ex_defs fs_defs op_defs ex_paths Join_empty_elem)


lemma ex_Create_reject:
  "Create st c obj example_reject = Some (Inl (External ''rejected''), st)"
  by (simp add: Create_def validate_def example_reject_def)

lemma DeleteCollection_chans:
  "chans (snd (DeleteCollection st c dv)) = chans st \<and> store (snd (DeleteCollection st c dv)) = store st"
  by (simp add: DeleteCollection_def Let_def split: sum.splits prod.splits option.splits)

lemma ex_ns1_bar_key:
  "path_key ''data/config/things/ns1/bar.json'' =
     (False, [''data'', ''config'', ''things'', ''ns1'', ''bar.json''])"
  by code_simp

lemma ex_ns2_baz_key:
  "path_key ''data/config/things/ns2/baz.json'' =
     (False, [''data'', ''config'', ''things'', ''ns2'', ''baz.json''])"
  by code_simp

lemma ex_ns1_bar_clean:
  "Clean ''data/config/things/ns1/bar.json'' = ''data/config/things/ns1/bar.json''"
  by code_simp

lemma ex_ns1_bar_render:
  "render (False, [''data'', ''config'', ''things'', ''ns1'', ''bar.json'']) =
     ''data/config/things/ns1/bar.json''"
  by code_simp

lemma ex_below_two:
  "below_entries example_two_namespaces (False, [''data'', ''config'', ''things'', ''ns1'']) =
     [ns1_bar_file, ns1_foo_file]"
  by code_simp

lemmas ex_two_defs = example_two_namespaces_def ns1_bar_file_def ns2_dir_def ns2_baz_file_def

lemma ex_List_two:
  "List (example_state True ws example_two_namespaces cs) (Some ''ns1'') =
     Inr [example_bar, example_foo]"
  by (simp add: List_def
      ex_below_two[unfolded ex_two_defs example_dirs_def ns1_dir_def ns1_foo_file_def, simplified]
      ex_defs ex_two_defs fs_defs op_defs ex_paths ex_ns1_bar_clean ex_ns1_bar_render ex_ns1_bar_key)

section \<open>The claims\<close>

text \<open>
  C1. Every successful change broadcasts one event, also each file removed by
  \<open>DeleteCollection\<close>. The run: a cluster-scoped store holds \<open>foo\<close> and has one
  subscription, made by \<open>Watch\<close>, whose channel holds the \<open>Added\<close> event of the
  snapshot. \<open>DeleteCollection\<close> removes the file of \<open>foo\<close> and returns \<open>foo\<close>, and
  the channel is as before: no \<open>Deleted\<close> event is sent. \<open>Delete\<close> of \<open>foo\<close> in the
  same state sends it.
\<close>

theorem DeleteCollection_no_event:
  "Watch (example_state False [] (example_dirs @ [foo_file]) []) None =
     Some (Inr \<lparr>id_jw = 0, ch = 0\<rparr>,
           example_state False [(0, \<lparr>id_jw = 0, ch = 0\<rparr>)] (example_dirs @ [foo_file])
             [[\<lparr>Type = Added, Object = example_foo\<rparr>]]) \<and>
   DeleteCollection
     (example_state False [(0, \<lparr>id_jw = 0, ch = 0\<rparr>)] (example_dirs @ [foo_file])
        [[\<lparr>Type = Added, Object = example_foo\<rparr>]]) None None =
     (Inr [example_foo],
      example_state False [(0, \<lparr>id_jw = 0, ch = 0\<rparr>)] example_dirs
        [[\<lparr>Type = Added, Object = example_foo\<rparr>]]) \<and>
   Delete
     (example_state False [(0, \<lparr>id_jw = 0, ch = 0\<rparr>)] (example_dirs @ [foo_file])
        [[\<lparr>Type = Added, Object = example_foo\<rparr>]]) None ''foo'' None =
     Some (Inr (example_foo, True),
           example_state False [(0, \<lparr>id_jw = 0, ch = 0\<rparr>)] example_dirs
             [[\<lparr>Type = Added, Object = example_foo\<rparr>, \<lparr>Type = Deleted, Object = example_foo\<rparr>]])"
  by (simp add: ex_Watch_foo ex_DeleteCollection_foo ex_Delete_foo send_def)

text \<open>
  C2. \<open>Create\<close> on an existing file fails and keeps the stored object. The run:
  \<open>foo\<close> is created, then \<open>Create\<close> is called with the name \<open>foo\<close> and another
  payload. The second call fails, the object read back is the first one, and the error
  is the sentinel \<open>ErrFileNotExists\<close>, the error for a file that does not exist.
\<close>

theorem Create_existing_error:
  "Create (example_new False) None example_foo None =
     Some (Inr example_foo, example_state False [] (example_dirs @ [foo_file]) []) \<and>
   Create (example_state False [] (example_dirs @ [foo_file]) []) None (''foo'', ''y'') None =
     Some (Inl ErrFileNotExists, example_state False [] (example_dirs @ [foo_file]) []) \<and>
   Get (example_state False [] (example_dirs @ [foo_file]) []) None ''foo'' = Inr example_foo"
  by (simp add: example_new_def ex_Create_foo ex_Create_foo_again ex_Get_foo)

text \<open>
  C3. When \<open>Create\<close> of a record \<open>r\<close> succeeds and decoding what the codec encodes
  for \<open>r\<close> gives \<open>r\<close> back, then \<open>Get\<close> in the same context with the name of \<open>r\<close>
  yields \<open>r\<close>.
\<close>

theorem Create_Get_roundtrip:
  assumes "Create st c r cv = Some (Inr x, st')"
    and "\<forall>b. Encode (codec (store st)) r = Inr b \<longrightarrow> Decode (codec (store st)) b = Inr r"
  shows "\<exists>name. accessor (store st) r = Inr name \<and> Get st' c name = Inr r"
proof -
  from Create_success[OF assms(1)] obtain t1 name t2 where
    acc: "accessor (store st) r = Inr name"
    and w: "write_obj (codec (store st)) t1 (objectFileName (store st) c name) r = Inr t2"
    and n: "notifyWatchers (st\<lparr>files := t2\<rparr>) \<lparr>Type = Added, Object = r\<rparr> = Some st'"
    by blast
  from notifyWatchers_frame[OF n] have fr: "files st' = t2" "store st' = store st" by simp_all
  from write_obj_ReadFile[OF w] obtain b where
    b: "Encode (codec (store st)) r = Inr b" "ReadFile t2 (objectFileName (store st) c name) = Inr b"
    by blast
  then have "Decode (codec (store st)) b = Inr r" using assms(2) by blast
  then have "Get st' c name = Inr r" using b(2) fr by (auto simp: Get_Inr_iff)
  then show ?thesis using acc by blast
qed

text \<open>The theorem at the example store.\<close>

theorem Create_Get_roundtrip_witness:
  "Create (example_new False) None example_foo None =
     Some (Inr example_foo, example_state False [] (example_dirs @ [foo_file]) []) \<and>
   accessor (store (example_new False)) example_foo = Inr ''foo'' \<and>
   Get (example_state False [] (example_dirs @ [foo_file]) []) None ''foo'' = Inr example_foo"
proof -
  have c: "Create (example_new False) None example_foo None =
     Some (Inr example_foo, example_state False [] (example_dirs @ [foo_file]) [])"
    by (simp add: example_new_def ex_Create_foo)
  have h: "\<forall>b. Encode (codec (store (example_new False))) example_foo = Inr b \<longrightarrow>
      Decode (codec (store (example_new False))) b = Inr example_foo"
    by (simp add: ex_defs)
  have a: "accessor (store (example_new False)) example_foo = Inr ''foo''"
    by (simp add: ex_defs)
  from Create_Get_roundtrip[OF c h] a c show ?thesis by auto
qed

text \<open>
  C4. A subscription receives every broadcast from \<open>Watch\<close> until its \<open>Stop\<close>. The
  run: two subscriptions get the keys 0 and 1; the first is stopped; a third
  subscription takes the size of the registry, 1, as its key and replaces the second
  in the registry. The event of the following \<open>Create\<close> reaches the third channel
  only: the channel of the second subscription, which was never stopped, stays empty.
\<close>

theorem Watch_key_reused:
  "Watch (example_new False) None =
     Some (Inr \<lparr>id_jw = 0, ch = 0\<rparr>, example_state False [(0, \<lparr>id_jw = 0, ch = 0\<rparr>)] example_dirs [[]]) \<and>
   Watch (example_state False [(0, \<lparr>id_jw = 0, ch = 0\<rparr>)] example_dirs [[]]) None =
     Some (Inr \<lparr>id_jw = 1, ch = 1\<rparr>,
           example_state False [(0, \<lparr>id_jw = 0, ch = 0\<rparr>), (1, \<lparr>id_jw = 1, ch = 1\<rparr>)]
             example_dirs [[], []]) \<and>
   Stop (example_state False [(0, \<lparr>id_jw = 0, ch = 0\<rparr>), (1, \<lparr>id_jw = 1, ch = 1\<rparr>)]
           example_dirs [[], []]) \<lparr>id_jw = 0, ch = 0\<rparr> =
     example_state False [(1, \<lparr>id_jw = 1, ch = 1\<rparr>)] example_dirs [[], []] \<and>
   Watch (example_state False [(1, \<lparr>id_jw = 1, ch = 1\<rparr>)] example_dirs [[], []]) None =
     Some (Inr \<lparr>id_jw = 1, ch = 2\<rparr>,
           example_state False [(1, \<lparr>id_jw = 1, ch = 2\<rparr>)] example_dirs [[], [], []]) \<and>
   Create (example_state False [(1, \<lparr>id_jw = 1, ch = 2\<rparr>)] example_dirs [[], [], []])
       None example_foo None =
     Some (Inr example_foo,
           example_state False [(1, \<lparr>id_jw = 1, ch = 2\<rparr>)] (example_dirs @ [foo_file])
             [[], [], [\<lparr>Type = Added, Object = example_foo\<rparr>]]) \<and>
   ResultChan
     (example_state False [(1, \<lparr>id_jw = 1, ch = 2\<rparr>)] (example_dirs @ [foo_file])
        [[], [], [\<lparr>Type = Added, Object = example_foo\<rparr>]]) \<lparr>id_jw = 1, ch = 1\<rparr> = []"
proof -
  have w0: "Watch (example_new False) None =
     Some (Inr \<lparr>id_jw = 0, ch = 0\<rparr>, example_state False [(0, \<lparr>id_jw = 0, ch = 0\<rparr>)] example_dirs [[]])"
    by (simp add: example_new_def ex_Watch_none)
  have w1: "Watch (example_state False [(0, \<lparr>id_jw = 0, ch = 0\<rparr>)] example_dirs [[]]) None =
     Some (Inr \<lparr>id_jw = 1, ch = 1\<rparr>,
           example_state False [(0, \<lparr>id_jw = 0, ch = 0\<rparr>), (1, \<lparr>id_jw = 1, ch = 1\<rparr>)]
             example_dirs [[], []])"
    by (simp add: ex_Watch_none)
  have st: "Stop (example_state False [(0, \<lparr>id_jw = 0, ch = 0\<rparr>), (1, \<lparr>id_jw = 1, ch = 1\<rparr>)]
           example_dirs [[], []]) \<lparr>id_jw = 0, ch = 0\<rparr> =
     example_state False [(1, \<lparr>id_jw = 1, ch = 1\<rparr>)] example_dirs [[], []]"
    by (simp add: Stop_def example_state_def AList.delete_eq)
  have w2: "Watch (example_state False [(1, \<lparr>id_jw = 1, ch = 1\<rparr>)] example_dirs [[], []]) None =
     Some (Inr \<lparr>id_jw = 1, ch = 2\<rparr>,
           example_state False [(1, \<lparr>id_jw = 1, ch = 2\<rparr>)] example_dirs [[], [], []])"
    by (simp add: ex_Watch_none numeral_2_eq_2)
  have c: "Create (example_state False [(1, \<lparr>id_jw = 1, ch = 2\<rparr>)] example_dirs [[], [], []])
       None example_foo None =
     Some (Inr example_foo,
           example_state False [(1, \<lparr>id_jw = 1, ch = 2\<rparr>)] (example_dirs @ [foo_file])
             [[], [], [\<lparr>Type = Added, Object = example_foo\<rparr>]])"
    by (simp add: ex_Create_foo send_def)
  have r: "ResultChan
     (example_state False [(1, \<lparr>id_jw = 1, ch = 2\<rparr>)] (example_dirs @ [foo_file])
        [[], [], [\<lparr>Type = Added, Object = example_foo\<rparr>]]) \<lparr>id_jw = 1, ch = 1\<rparr> = []"
    by (simp add: ResultChan_def example_state_def)
  show ?thesis using w0 w1 st w2 c r by (intro conjI)
qed

text \<open>
  C5. Let the scope directory of the context (the namespace directory under the root,
  or the root of a cluster-scoped store) exist, and let the regular \<open>.json\<close> files
  below it be exactly two, which decode to \<open>a\<close> and \<open>b\<close>; let \<open>newListFunc\<close> give an
  empty list. Then \<open>Watch\<close> returns a registered subscription whose channel holds an
  \<open>Added\<close> event for \<open>a\<close> and one for \<open>b\<close>, each once and nothing else; an event
  sent to the channel later is queued behind them.
\<close>

theorem Watch_snapshot:
  assumes nl: "newListFunc (store st) = ItemsList []"
    and d: "d = (if isNamespaced (store st)
                 then Join [objRootPath (store st), fst (NamespaceFrom c)]
                 else objRootPath (store st))"
    and dir: "Stat (files st) d = Inr Dir"
    and fa: "ReadFile (files st) pa = Inr ba" "Decode (codec (store st)) ba = Inr a"
      "is_below (path_key d) (path_key pa)" "HasSuffix (base_name (path_key pa)) ''.json''"
    and fb: "ReadFile (files st) pb = Inr bb" "Decode (codec (store st)) bb = Inr b"
      "is_below (path_key d) (path_key pb)" "HasSuffix (base_name (path_key pb)) ''.json''"
    and ne: "path_key pa \<noteq> path_key pb"
    and only: "\<forall>q content. is_below (path_key d) q \<and> lookup (files st) q = Inr (File content) \<and>
        HasSuffix (base_name q) ''.json'' \<longrightarrow> q = path_key pa \<or> q = path_key pb"
  shows "\<exists>w st'. Watch st c = Some (Inr w, st') \<and>
           mset (ResultChan st' w) = {#\<lparr>Type = Added, Object = a\<rparr>, \<lparr>Type = Added, Object = b\<rparr>#} \<and>
           map_of (watchers (store st')) (id_jw w) = Some w \<and>
           (\<forall>ev cs. send (chans st') (ch w) ev = Some cs \<longrightarrow> cs ! ch w = ResultChan st' w @ [ev])"
proof -
  from List_two_files[OF nl d dir fa fb ne only] obtain items where
    "List st c = Inr items" "mset items = {#a, b#}" by blast
  then show ?thesis by (rule Watch_of_List)
qed

text \<open>The theorem at a namespaced example store: \<open>Watch\<close> in \<open>ns1\<close> replays \<open>foo\<close>
  and \<open>bar\<close> and not \<open>baz\<close> of \<open>ns2\<close>.\<close>

theorem Watch_snapshot_witness:
  "Stat (files (example_state True [] example_two_namespaces [])) ''data/config/things/ns1'' = Inr Dir \<and>
   ReadFile (files (example_state True [] example_two_namespaces []))
     ''data/config/things/ns1/foo.json'' = Inr ''foo:x'' \<and>
   ReadFile (files (example_state True [] example_two_namespaces []))
     ''data/config/things/ns1/bar.json'' = Inr ''bar:y'' \<and>
   ReadFile (files (example_state True [] example_two_namespaces []))
     ''data/config/things/ns2/baz.json'' = Inr ''baz:z'' \<and>
   Watch (example_state True [] example_two_namespaces []) (Some ''ns1'') =
     Some (Inr \<lparr>id_jw = 0, ch = 0\<rparr>,
           example_state True [(0, \<lparr>id_jw = 0, ch = 0\<rparr>)] example_two_namespaces
             [[\<lparr>Type = Added, Object = example_bar\<rparr>, \<lparr>Type = Added, Object = example_foo\<rparr>]]) \<and>
   mset (ResultChan
           (example_state True [(0, \<lparr>id_jw = 0, ch = 0\<rparr>)] example_two_namespaces
              [[\<lparr>Type = Added, Object = example_bar\<rparr>, \<lparr>Type = Added, Object = example_foo\<rparr>]])
           \<lparr>id_jw = 0, ch = 0\<rparr>) =
     {#\<lparr>Type = Added, Object = example_foo\<rparr>, \<lparr>Type = Added, Object = example_bar\<rparr>#}"
proof -
  let ?S = "example_state True [] example_two_namespaces []"
  let ?d = "''data/config/things/ns1''"
  let ?pa = "''data/config/things/ns1/foo.json''" and ?pb = "''data/config/things/ns1/bar.json''"
  have nl: "newListFunc (store ?S) = ItemsList []" by (simp add: ex_defs)
  have d: "?d = (if isNamespaced (store ?S)
      then Join [objRootPath (store ?S), fst (NamespaceFrom (Some ''ns1''))]
      else objRootPath (store ?S))"
    by (simp add: ex_defs NamespaceFrom_def ex_paths)
  have dir: "Stat (files ?S) ?d = Inr Dir"
    by (simp add: ex_defs ex_two_defs fs_defs ex_paths)
  have ra: "ReadFile (files ?S) ?pa = Inr ''foo:x''"
    by (simp add: ex_defs ex_two_defs fs_defs ex_paths)
  have rb: "ReadFile (files ?S) ?pb = Inr ''bar:y''"
    by (simp add: ex_defs ex_two_defs fs_defs ex_paths ex_ns1_bar_key)
  have rc: "ReadFile (files ?S) ''data/config/things/ns2/baz.json'' = Inr ''baz:z''"
    by (simp add: ex_defs ex_two_defs fs_defs ex_paths ex_ns2_baz_key)
  have da: "Decode (codec (store ?S)) ''foo:x'' = Inr example_foo"
    and db: "Decode (codec (store ?S)) ''bar:y'' = Inr example_bar"
    by (simp_all add: ex_defs)
  have ba: "is_below (path_key ?d) (path_key ?pa)" and bb: "is_below (path_key ?d) (path_key ?pb)"
    by (simp_all add: ex_paths ex_ns1_bar_key is_below_def)
  have sa: "HasSuffix (base_name (path_key ?pa)) ''.json''"
    and sb: "HasSuffix (base_name (path_key ?pb)) ''.json''"
    by (simp_all add: ex_paths ex_ns1_bar_key base_name_def)
  have ne: "path_key ?pa \<noteq> path_key ?pb" by (simp add: ex_paths ex_ns1_bar_key)
  have only: "\<forall>q content. is_below (path_key ?d) q \<and> lookup (files ?S) q = Inr (File content) \<and>
      HasSuffix (base_name q) ''.json'' \<longrightarrow> q = path_key ?pa \<or> q = path_key ?pb"
  proof (intro allI impI)
    fix q content
    assume "is_below (path_key ?d) q \<and> lookup (files ?S) q = Inr (File content) \<and>
      HasSuffix (base_name q) ''.json''"
    then have "(q, File content) \<in> set (below_entries example_two_namespaces (path_key ?d))"
      by (simp add: below_entries_iff example_state_def)
    then show "q = path_key ?pa \<or> q = path_key ?pb"
      by (auto simp: ex_paths ex_ns1_bar_key ex_below_two ns1_bar_file_def ns1_foo_file_def)
  qed
  have W: "Watch ?S (Some ''ns1'') =
     Some (Inr \<lparr>id_jw = 0, ch = 0\<rparr>,
           example_state True [(0, \<lparr>id_jw = 0, ch = 0\<rparr>)] example_two_namespaces
             [[\<lparr>Type = Added, Object = example_bar\<rparr>, \<lparr>Type = Added, Object = example_foo\<rparr>]])"
    using Watch_items[OF ex_List_two, of "[]" "[]"] by (simp add: example_state_def)
  from Watch_snapshot[OF nl d dir ra da ba sa rb db bb sb ne only] W
  have "mset (ResultChan
           (example_state True [(0, \<lparr>id_jw = 0, ch = 0\<rparr>)] example_two_namespaces
              [[\<lparr>Type = Added, Object = example_bar\<rparr>, \<lparr>Type = Added, Object = example_foo\<rparr>]])
           \<lparr>id_jw = 0, ch = 0\<rparr>) =
     {#\<lparr>Type = Added, Object = example_foo\<rparr>, \<lparr>Type = Added, Object = example_bar\<rparr>#}"
    by auto
  then show ?thesis using dir ra rb rc W by simp
qed




text \<open>
  C7. After \<open>foo\<close> is created in namespace \<open>ns1\<close> of a new namespaced store, \<open>List\<close>
  in \<open>ns1\<close> gives \<open>foo\<close>. \<open>List\<close> in \<open>ns2\<close>, where nothing was written, does not
  give the empty list: the directory of \<open>ns2\<close> does not exist, the walk fails at its
  root and \<open>List\<close> returns an error.
\<close>

theorem List_unwritten_namespace:
  "NewFilepathREST [] example_gr example_codec ''data'' True example_accessor (ItemsList []) =
     Inr (example_new True) \<and>
   Create (example_new True) (Some ''ns1'') example_foo None =
     Some (Inr example_foo, example_state True [] (example_dirs @ [ns1_dir, ns1_foo_file]) []) \<and>
   List (example_state True [] (example_dirs @ [ns1_dir, ns1_foo_file]) []) (Some ''ns1'') =
     Inr [example_foo] \<and>
   List (example_state True [] (example_dirs @ [ns1_dir, ns1_foo_file]) []) (Some ''ns2'') =
     Inl (Errorf ''failed walking filepath data/config/things/ns2'')"
  by (simp add: ex_made ex_Create_ns1 ex_List_ns1 ex_List_ns2)

text \<open>
  C8, as amended. \<open>Delete\<close> of a name with no file fails with the sentinel
  \<open>ErrFileNotExists\<close> and leaves the whole state as it was. \<open>Delete\<close> of a stored
  object that passes the delete validation, when the subscriptions have room, returns
  that object, removes its file, so that \<open>Get\<close> afterwards fails with \<open>NotFound\<close>,
  and appends \<open>Deleted\<close> with the object to the channel of every registered
  subscription.
\<close>

theorem Delete_missing_or_existing:
  "(\<not> exists (files st) (objectFileName (store st) c name) \<longrightarrow>
      Delete st c name dv = Some (Inl ErrFileNotExists, st)) \<and>
   (Get st c name = Inr obj \<and> validate dv c obj = None \<and> room st \<longrightarrow>
      (\<exists>st'. Delete st c name dv = Some (Inr (obj, True), st') \<and>
         Remove (files st) (objectFileName (store st) c name) = Inr (files st') \<and>
         \<not> exists (files st') (objectFileName (store st) c name) \<and>
         Get st' c name = Inl (NotFound (groupResource (store st)) name) \<and>
         store st' = store st \<and>
         (\<forall>w\<in>set (watchers (store st)).
            ResultChan st' (snd w) = ResultChan st (snd w) @ [\<lparr>Type = Deleted, Object = obj\<rparr>])))"
  using Delete_missing[of st c name dv] Delete_existing[of st c name obj dv] by blast

text \<open>The theorem at the example store.\<close>

theorem Delete_missing_or_existing_witness:
  "exists (files (example_state False [(0, \<lparr>id_jw = 0, ch = 0\<rparr>)] example_dirs
                    [[\<lparr>Type = Added, Object = example_foo\<rparr>]]))
     (objectFileName (store (example_state False [(0, \<lparr>id_jw = 0, ch = 0\<rparr>)] example_dirs
                    [[\<lparr>Type = Added, Object = example_foo\<rparr>]])) None ''foo'') = False \<and>
   Delete (example_state False [(0, \<lparr>id_jw = 0, ch = 0\<rparr>)] example_dirs
             [[\<lparr>Type = Added, Object = example_foo\<rparr>]]) None ''foo'' None =
     Some (Inl ErrFileNotExists,
           example_state False [(0, \<lparr>id_jw = 0, ch = 0\<rparr>)] example_dirs
             [[\<lparr>Type = Added, Object = example_foo\<rparr>]]) \<and>
   Get (example_state False [(0, \<lparr>id_jw = 0, ch = 0\<rparr>)] (example_dirs @ [foo_file])
          [[\<lparr>Type = Added, Object = example_foo\<rparr>]]) None ''foo'' = Inr example_foo \<and>
   room (example_state False [(0, \<lparr>id_jw = 0, ch = 0\<rparr>)] (example_dirs @ [foo_file])
          [[\<lparr>Type = Added, Object = example_foo\<rparr>]]) \<and>
   Delete (example_state False [(0, \<lparr>id_jw = 0, ch = 0\<rparr>)] (example_dirs @ [foo_file])
             [[\<lparr>Type = Added, Object = example_foo\<rparr>]]) None ''foo'' None =
     Some (Inr (example_foo, True),
           example_state False [(0, \<lparr>id_jw = 0, ch = 0\<rparr>)] example_dirs
             [[\<lparr>Type = Added, Object = example_foo\<rparr>, \<lparr>Type = Deleted, Object = example_foo\<rparr>]]) \<and>
   Get (example_state False [(0, \<lparr>id_jw = 0, ch = 0\<rparr>)] example_dirs
          [[\<lparr>Type = Added, Object = example_foo\<rparr>, \<lparr>Type = Deleted, Object = example_foo\<rparr>]])
       None ''foo'' = Inl (NotFound example_gr ''foo'')"
proof -
  let ?ws = "[(0::nat, \<lparr>id_jw = 0, ch = 0\<rparr>)]"
  let ?M = "example_state False ?ws example_dirs [[\<lparr>Type = Added, Object = example_foo\<rparr>]]"
  let ?S = "example_state False ?ws (example_dirs @ [foo_file]) [[\<lparr>Type = Added, Object = example_foo\<rparr>]]"
  let ?D = "example_state False ?ws example_dirs
              [[\<lparr>Type = Added, Object = example_foo\<rparr>, \<lparr>Type = Deleted, Object = example_foo\<rparr>]]"
  have e: "\<not> exists (files ?M) (objectFileName (store ?M) None ''foo'')"
    using ex_absent_foo[of False ?ws] by simp
  have g: "Get ?S None ''foo'' = Inr example_foo" by (rule ex_Get_foo)
  have v: "validate None None example_foo = None" by (simp add: validate_def)
  have r: "room ?S" by (simp add: room_def example_state_def)
  have d: "Delete ?S None ''foo'' None = Some (Inr (example_foo, True), ?D)"
    by (simp add: ex_Delete_foo send_def)
  from Delete_missing_or_existing[of ?M None "''foo''" None example_foo] e
  have m: "Delete ?M None ''foo'' None = Some (Inl ErrFileNotExists, ?M)" by blast
  from Delete_missing_or_existing[of ?S None "''foo''" None example_foo] g v r
  obtain st' where "Delete ?S None ''foo'' None = Some (Inr (example_foo, True), st')"
    "Get st' None ''foo'' = Inl (NotFound (groupResource (store ?S)) ''foo'')"
    by blast
  then have "Get ?D None ''foo'' = Inl (NotFound example_gr ''foo'')"
    using d by (simp add: example_state_def example_rest_def)
  then show ?thesis using e m g r d by simp
qed

text \<open>
  C8 as stated fails in the error of the first part: on a new store \<open>Delete\<close> of
  \<open>foo\<close> returns the sentinel \<open>ErrFileNotExists\<close>, which is not the \<open>NotFound\<close> status
  that \<open>Get\<close> of \<open>foo\<close> returns.
\<close>

theorem Delete_missing_not_NotFound:
  "Delete (example_new False) None ''foo'' None = Some (Inl ErrFileNotExists, example_new False) \<and>
   Get (example_new False) None ''foo'' = Inl (NotFound example_gr ''foo'') \<and>
   ErrFileNotExists \<noteq> NotFound example_gr ''foo''"
  using ex_absent_foo[of False "[]" "[]"] ex_Get_missing[of False "[]" "[]"]
  by (simp add: example_new_def Delete_def)

text \<open>
  C9. When \<open>Create\<close>, \<open>Update\<close> or \<open>Delete\<close> returns an error, the channels and the
  registry are as before the call: no event was broadcast.
\<close>

theorem failed_operation_no_event:
  "(Create st c obj cv = Some (Inl err, st') \<longrightarrow>
      chans st' = chans st \<and> watchers (store st') = watchers (store st)) \<and>
   (Update st c name objInfo cv uv force = Some (Inl err, st') \<longrightarrow>
      chans st' = chans st \<and> watchers (store st') = watchers (store st)) \<and>
   (Delete st c name dv = Some (Inl err, st') \<longrightarrow>
      chans st' = chans st \<and> watchers (store st') = watchers (store st))"
  using Create_failed[of st c obj cv err st'] Update_failed[of st c name objInfo cv uv force err st']
    Delete_failed[of st c name dv err st'] by simp

text \<open>The theorem at the example store.\<close>

theorem failed_operation_no_event_witness:
  "Create (example_state False [(0, \<lparr>id_jw = 0, ch = 0\<rparr>)] (example_dirs @ [foo_file])
             [[\<lparr>Type = Added, Object = example_foo\<rparr>]]) None (''foo'', ''y'') None =
     Some (Inl ErrFileNotExists,
           example_state False [(0, \<lparr>id_jw = 0, ch = 0\<rparr>)] (example_dirs @ [foo_file])
             [[\<lparr>Type = Added, Object = example_foo\<rparr>]]) \<and>
   Update (example_new True) (Some ''ns1'') ''foo'' example_info example_reject None True =
     Some (Inl (External ''rejected''), example_state True [] (example_dirs @ [ns1_dir]) []) \<and>
   chans (example_state True [] (example_dirs @ [ns1_dir]) []) = chans (example_new True) \<and>
   watchers (store (example_state True [] (example_dirs @ [ns1_dir]) [])) =
     watchers (store (example_new True)) \<and>
   Delete (example_state False [(0, \<lparr>id_jw = 0, ch = 0\<rparr>)] example_dirs
             [[\<lparr>Type = Added, Object = example_foo\<rparr>]]) None ''foo'' None =
     Some (Inl ErrFileNotExists,
           example_state False [(0, \<lparr>id_jw = 0, ch = 0\<rparr>)] example_dirs
             [[\<lparr>Type = Added, Object = example_foo\<rparr>]])"
proof -
  let ?ws = "[(0::nat, \<lparr>id_jw = 0, ch = 0\<rparr>)]"
  let ?M = "example_state False ?ws example_dirs [[\<lparr>Type = Added, Object = example_foo\<rparr>]]"
  let ?S = "example_state False ?ws (example_dirs @ [foo_file]) [[\<lparr>Type = Added, Object = example_foo\<rparr>]]"
  let ?R = "example_state True [] (example_dirs @ [ns1_dir]) []"
  have c: "Create ?S None (''foo'', ''y'') None = Some (Inl ErrFileNotExists, ?S)"
    by (rule ex_Create_foo_again)
  have u: "Update (example_new True) (Some ''ns1'') ''foo'' example_info example_reject None True =
     Some (Inl (External ''rejected''), ?R)"
    by (rule ex_Update_reject)
  have d: "Delete ?M None ''foo'' None = Some (Inl ErrFileNotExists, ?M)"
    using ex_absent_foo[of False ?ws] by (simp add: Delete_def)
  from failed_operation_no_event[of ?S None "(''foo'', ''y'')" None ErrFileNotExists ?S
      "''foo''" example_info None True None] c
  have "chans ?S = chans ?S \<and> watchers (store ?S) = watchers (store ?S)"
    by blast
  moreover from failed_operation_no_event[of "example_new True" "Some ''ns1''" example_foo
      example_reject "External ''rejected''" ?R "''foo''" example_info None True None] u
  have "chans ?R = chans (example_new True) \<and> watchers (store ?R) = watchers (store (example_new True))"
    by blast
  moreover from failed_operation_no_event[of ?M None example_foo None ErrFileNotExists ?M
      "''foo''" example_info None True None] d
  have "chans ?M = chans ?M \<and> watchers (store ?M) = watchers (store ?M)"
    by blast
  ultimately show ?thesis using c u d by simp
qed

text \<open>
  C10, as amended. In a namespaced store made by \<open>NewFilepathREST\<close>, with a context
  that carries no namespace: \<open>Create\<close> always fails, with \<open>ErrNamespaceNotExists\<close>
  once the create validation has accepted the object; \<open>Update\<close> always fails, with
  \<open>ErrNamespaceNotExists\<close> when the object can be read or creation is allowed.
  \<open>Get\<close>, \<open>Delete\<close> and \<open>List\<close> take the namespace as empty: they use the file
  \<open>root/name.json\<close> and the root directory, and do what they do in the same store
  when it is cluster-scoped.
\<close>

theorem no_namespace_in_context:
  assumes ns: "isNamespaced (store st)"
    and root: "objRootPath (store st) =
       Join [rootpath, Group (groupResource (store st)), Resource (groupResource (store st))]"
  shows "(validate cv None obj = None \<longrightarrow>
            Create st None obj cv = Some (Inl ErrNamespaceNotExists, st)) \<and>
         (\<exists>err. Create st None obj cv = Some (Inl err, st)) \<and>
         (force \<or> (\<exists>old. Get st None name = Inr old) \<longrightarrow>
            Update st None name objInfo cv uv force = Some (Inl ErrNamespaceNotExists, st)) \<and>
         (\<exists>err. Update st None name objInfo cv uv force = Some (Inl err, st)) \<and>
         objectFileName (store st) None name = Join [objRootPath (store st), name @ ''.json''] \<and>
         Get st None name = Get (clusterScoped st) None name \<and>
         Delete (clusterScoped st) None name dv =
           map_option (\<lambda>rs. (fst rs, clusterScoped (snd rs))) (Delete st None name dv) \<and>
         List st None = List (clusterScoped st) None"
proof -
  have C: "(validate cv None obj = None \<longrightarrow>
            Create st None obj cv = Some (Inl ErrNamespaceNotExists, st)) \<and>
         (\<exists>err. Create st None obj cv = Some (Inl err, st))"
    unfolding Create_no_namespace[OF ns] by (cases "validate cv None obj") simp_all
  have U: "(force \<or> (\<exists>old. Get st None name = Inr old) \<longrightarrow>
            Update st None name objInfo cv uv force = Some (Inl ErrNamespaceNotExists, st)) \<and>
         (\<exists>err. Update st None name objInfo cv uv force = Some (Inl err, st))"
    unfolding Update_no_namespace[OF ns] by (cases "Get st None name") auto
  show ?thesis
    using C U objectFileName_no_namespace[of "store st" name] Get_clusterScoped[of st name]
      Delete_clusterScoped[of st name dv] List_clusterScoped[OF ns root]
    by simp
qed

text \<open>The theorem at the example store.\<close>

theorem no_namespace_in_context_witness:
  "isNamespaced (store (example_new True)) \<and>
   objRootPath (store (example_new True)) =
     Join [''data'', Group (groupResource (store (example_new True))),
           Resource (groupResource (store (example_new True)))] \<and>
   Create (example_new True) None example_foo None =
     Some (Inl ErrNamespaceNotExists, example_new True) \<and>
   Update (example_new True) None ''foo'' example_info None None True =
     Some (Inl ErrNamespaceNotExists, example_new True) \<and>
   Get (example_new True) None ''foo'' = Get (clusterScoped (example_new True)) None ''foo'' \<and>
   List (example_new True) None = List (clusterScoped (example_new True)) None"
proof -
  have n: "isNamespaced (store (example_new True))" by (simp add: ex_defs)
  have r: "objRootPath (store (example_new True)) =
     Join [''data'', Group (groupResource (store (example_new True))),
           Resource (groupResource (store (example_new True)))]"
    by (simp add: ex_defs ex_root)
  have v: "validate None None example_foo = None" by (simp add: validate_def)
  from no_namespace_in_context[OF n r, of None example_foo True "''foo''" example_info None None] v n r
  show ?thesis by simp
qed

text \<open>
  C10 as stated fails where an earlier check fails first: \<open>Update\<close> of a missing
  object without \<open>forceAllowCreate\<close> returns the \<open>NotFound\<close> of \<open>Get\<close>, and \<open>Create\<close>
  with a rejecting validation returns the error of the validation.
\<close>

theorem Update_no_namespace_NotFound:
  "isNamespaced (store (example_new True)) \<and>
   Update (example_new True) None ''foo'' example_info None None False =
     Some (Inl (NotFound example_gr ''foo''), example_new True) \<and>
   Create (example_new True) None example_foo example_reject =
     Some (Inl (External ''rejected''), example_new True)"
  by (simp add: ex_Create_reject ex_Update_missing[of True "[]" "[]", folded example_new_def])
     (simp add: ex_defs)

end
